theory Spec2Isabelle
  imports Main
begin

section \<open>Strings\<close>

text \<open>
  A JavaScript string is a sequence of UTF-16 code units; a code unit is modelled as a
  natural number (below 65536 in every string the program can meet). \<open>S\<close> turns an ASCII
  literal of the source into its code units.
\<close>

type_synonym jsstr = "nat list"

definition S :: "string \<Rightarrow> jsstr" where
  "S cs = map of_char cs"

text \<open>\<^verbatim>\<open>s.startsWith(p)\<close>\<close>

definition startsWith :: "jsstr \<Rightarrow> jsstr \<Rightarrow> bool" where
  "startsWith s p = (take (length p) s = p)"

text \<open>\<^verbatim>\<open>s.includes(sub)\<close>\<close>

fun js_includes :: "jsstr \<Rightarrow> jsstr \<Rightarrow> bool" where
  "js_includes [] sub = (sub = [])"
| "js_includes (x # xs) sub = (startsWith (x # xs) sub \<or> js_includes xs sub)"

text \<open>\<^verbatim>\<open>s.split(c)\<close> for a separator \<open>c\<close> of one code unit; the result is never empty.\<close>

fun split :: "nat \<Rightarrow> jsstr \<Rightarrow> jsstr list" where
  "split c [] = [[]]"
| "split c (x # xs) =
     (if x = c then [] # split c xs
      else (case split c xs of y # ys \<Rightarrow> (x # y) # ys | [] \<Rightarrow> [[x]]))"

text \<open>The decimal digits of a number, as a template literal prints a status code.\<close>

fun dec :: "nat \<Rightarrow> jsstr" where
  "dec n = (if n < 10 then [48 + n] else dec (n div 10) @ [48 + n mod 10])"

declare dec.simps [simp del]

section \<open>Regular expressions\<close>

text \<open>
  The fragment of ECMAScript regular expressions that the source uses: literal text,
  character classes, greedy and lazy repetition of a class, an optional part, sequence,
  alternative and the capture group. The matcher is the backtracking matcher of the
  language definition, written with continuations: a pattern is run on the rest of the
  input with the continuation that matches what follows it, alternatives are tried in
  priority order and the first success is the result.
\<close>

datatype rx =
    Eps
  | Lit jsstr
  | Cls "nat \<Rightarrow> bool"
  | Star "nat \<Rightarrow> bool"
  | Lazy "nat \<Rightarrow> bool"
  | Opt rx
  | Seq rx rx
  | Alt rx rx
  | Grp rx

text \<open>
  Under the flag \<^verbatim>\<open>i\<close> two code units match when their canonical forms agree. Every
  literal of the source is ASCII, and a code unit outside ASCII never canonicalises
  into ASCII, so only the letters a to z are folded.
\<close>

definition canon :: "nat \<Rightarrow> nat" where
  "canon c = (if 97 \<le> c \<and> c \<le> 122 then c - 32 else c)"

definition same :: "bool \<Rightarrow> nat \<Rightarrow> nat \<Rightarrow> bool" where
  "same ic p x = (if ic then canon p = canon x else p = x)"

fun lit_prefix :: "bool \<Rightarrow> jsstr \<Rightarrow> jsstr \<Rightarrow> bool" where
  "lit_prefix ic [] s = True"
| "lit_prefix ic (p # ps) [] = False"
| "lit_prefix ic (p # ps) (x # xs) = (same ic p x \<and> lit_prefix ic ps xs)"

text \<open>Greedy repetition \<^verbatim>\<open>[..]*\<close>: the longest run first, then shorter ones.\<close>

primrec star_g :: "(nat \<Rightarrow> bool) \<Rightarrow> (jsstr \<Rightarrow> 'r option) \<Rightarrow> jsstr \<Rightarrow> 'r option" where
  "star_g P k [] = k []"
| "star_g P k (x # xs) =
     (if P x then (case star_g P k xs of Some r \<Rightarrow> Some r | None \<Rightarrow> k (x # xs))
      else k (x # xs))"

text \<open>Lazy repetition \<^verbatim>\<open>[..]*?\<close>: the shortest run first, then longer ones.\<close>

primrec star_l :: "(nat \<Rightarrow> bool) \<Rightarrow> (jsstr \<Rightarrow> 'r option) \<Rightarrow> jsstr \<Rightarrow> 'r option" where
  "star_l P k [] = k []"
| "star_l P k (x # xs) =
     (case k (x # xs) of Some r \<Rightarrow> Some r
      | None \<Rightarrow> if P x then star_l P k xs else None)"

text \<open>
  A matcher state is the rest of the input and the text of capture group 1 (every
  pattern of the source has exactly one group).
\<close>

type_synonym mstate = "jsstr \<times> jsstr option"

primrec rxk :: "bool \<Rightarrow> rx \<Rightarrow> (mstate \<Rightarrow> 'r option) \<Rightarrow> mstate \<Rightarrow> 'r option" where
  "rxk ic Eps k st = k st"
| "rxk ic (Lit l) k st =
     (if lit_prefix ic l (fst st) then k (drop (length l) (fst st), snd st) else None)"
| "rxk ic (Cls P) k st =
     (case fst st of [] \<Rightarrow> None | x # xs \<Rightarrow> if P x then k (xs, snd st) else None)"
| "rxk ic (Star P) k st = star_g P (\<lambda>s. k (s, snd st)) (fst st)"
| "rxk ic (Lazy P) k st = star_l P (\<lambda>s. k (s, snd st)) (fst st)"
| "rxk ic (Opt r) k st = (case rxk ic r k st of Some m \<Rightarrow> Some m | None \<Rightarrow> k st)"
| "rxk ic (Seq a b) k st = rxk ic a (rxk ic b k) st"
| "rxk ic (Alt a b) k st = (case rxk ic a k st of Some m \<Rightarrow> Some m | None \<Rightarrow> rxk ic b k st)"
| "rxk ic (Grp r) k st =
     rxk ic r (\<lambda>st'. k (fst st', Some (take (length (fst st) - length (fst st')) (fst st)))) st"

text \<open>
  \<^verbatim>\<open>s.match(re)\<close> and \<^verbatim>\<open>re.exec(s)\<close> without the flag \<^verbatim>\<open>g\<close>: the match at the leftmost
  start position that has one. \<open>None\<close> is the source's \<^verbatim>\<open>null\<close>.
\<close>

primrec rx_match :: "bool \<Rightarrow> rx \<Rightarrow> jsstr \<Rightarrow> mstate option" where
  "rx_match ic r [] = rxk ic r Some ([], None)"
| "rx_match ic r (x # xs) =
     (case rxk ic r Some (x # xs, None) of Some m \<Rightarrow> Some m | None \<Rightarrow> rx_match ic r xs)"

text \<open>The test \<^verbatim>\<open>match && match[1]\<close> and, where it holds, the value \<^verbatim>\<open>match[1]\<close>.\<close>

definition group1 :: "bool \<Rightarrow> rx \<Rightarrow> jsstr \<Rightarrow> jsstr option" where
  "group1 ic r s =
     (case rx_match ic r s of
        None \<Rightarrow> None
      | Some m \<Rightarrow> (case snd m of None \<Rightarrow> None | Some g \<Rightarrow> if g = [] then None else Some g))"

definition cat :: "rx list \<Rightarrow> rx" where
  "cat rs = foldr Seq rs Eps"

definition alts :: "rx list \<Rightarrow> rx" where
  "alts rs = (case rs of [] \<Rightarrow> Eps | _ \<Rightarrow> foldr Alt (butlast rs) (last rs))"

definition plus :: "(nat \<Rightarrow> bool) \<Rightarrow> rx" where
  "plus P = Seq (Cls P) (Star P)"

subsection \<open>Character classes of the source\<close>

text \<open>\<^verbatim>\<open>[^>]\<close>, \<^verbatim>\<open>[^"]\<close>, \<^verbatim>\<open>[^;"]\<close>, \<^verbatim>\<open>\s\<close>, \<^verbatim>\<open>[\s\S]\<close>, \<^verbatim>\<open>[^\s"'<>;]\<close>, \<^verbatim>\<open>['"]\<close>, \<^verbatim>\<open>[a-zA-Z0-9]\<close>\<close>

definition not_gt :: "nat \<Rightarrow> bool" where
  "not_gt c = (c \<noteq> 62)"

definition not_quote :: "nat \<Rightarrow> bool" where
  "not_quote c = (c \<noteq> 34)"

definition not_semi_quote :: "nat \<Rightarrow> bool" where
  "not_semi_quote c = (c \<noteq> 59 \<and> c \<noteq> 34)"

definition white :: "nat \<Rightarrow> bool" where
  "white c = (c \<in> {9, 10, 11, 12, 13, 32, 160, 5760, 8232, 8233, 8239, 8287, 12288, 65279}
     \<or> (8192 \<le> c \<and> c \<le> 8202))"

definition any_unit :: "nat \<Rightarrow> bool" where
  "any_unit c = True"

definition url_unit :: "nat \<Rightarrow> bool" where
  "url_unit c = (\<not> white c \<and> c \<noteq> 34 \<and> c \<noteq> 39 \<and> c \<noteq> 60 \<and> c \<noteq> 62 \<and> c \<noteq> 59)"

definition any_quote :: "nat \<Rightarrow> bool" where
  "any_quote c = (c = 39 \<or> c = 34)"

definition alnum :: "nat \<Rightarrow> bool" where
  "alnum c = ((97 \<le> c \<and> c \<le> 122) \<or> (65 \<le> c \<and> c \<le> 90) \<or> (48 \<le> c \<and> c \<le> 57))"

section \<open>The direct-link extractor\<close>

text \<open>\<^verbatim>\<open>/<a[^>]*id="download-button"[^>]*href="([^"]+)"/i\<close>\<close>

definition downloadLinkRegex1 :: rx where
  \<open>downloadLinkRegex1 =
     cat [Lit (S ''<a''), Star not_gt, Lit (S ''id="download-button"''), Star not_gt,
          Lit (S ''href="''), Grp (plus not_quote), Lit (S ''"'')]\<close>

text \<open>\<^verbatim>\<open>(https?:\/\/[^"]+)\<close>, the group of patterns 2 and 3\<close>

definition quoted_url :: rx where
  "quoted_url = Grp (cat [Lit (S ''http''), Opt (Lit (S ''s'')), Lit (S ''://''), plus not_quote])"

text \<open>\<^verbatim>\<open>/var\s+download_url\s*=\s*"(https?:\/\/[^"]+)";/i\<close>\<close>

definition jsDownloadLinkRegex2 :: rx where
  \<open>jsDownloadLinkRegex2 =
     cat [Lit (S ''var''), plus white, Lit (S ''download_url''), Star white, Lit (S ''=''),
          Star white, Lit (S ''"''), quoted_url, Lit (S ''";'')]\<close>

text \<open>\<^verbatim>\<open>/window\.dl_link\s*=\s*"(https?:\/\/[^"]+)";/i\<close>\<close>

definition dlLinkRegex3 :: rx where
  \<open>dlLinkRegex3 =
     cat [Lit (S ''window.dl_link''), Star white, Lit (S ''=''), Star white, Lit (S ''"''),
          quoted_url, Lit (S ''";'')]\<close>

text \<open>
  \<^verbatim>\<open>/<script[^>]*>[\s\S]*?(https?:\/\/[^\s"'<>;]+\.(?:zip|rar|7z|exe|mp4|mp3|pdf|doc|docx|xls|xlsx|ppt|pptx|jpg|jpeg|png|gif|txt|iso|apk|dmg|deb|rpm|tar\.gz|gz|bz2|xz))[\s\S]*?<\/script>/i\<close>
\<close>

definition file_extensions :: "string list" where
  "file_extensions =
     [''zip'', ''rar'', ''7z'', ''exe'', ''mp4'', ''mp3'', ''pdf'', ''doc'', ''docx'', ''xls'',
      ''xlsx'', ''ppt'', ''pptx'', ''jpg'', ''jpeg'', ''png'', ''gif'', ''txt'', ''iso'', ''apk'',
      ''dmg'', ''deb'', ''rpm'', ''tar.gz'', ''gz'', ''bz2'', ''xz'']"

definition directLinkInScriptRegex :: rx where
  "directLinkInScriptRegex =
     cat [Lit (S ''<script''), Star not_gt, Lit (S ''>''), Lazy any_unit,
          Grp (cat [Lit (S ''http''), Opt (Lit (S ''s'')), Lit (S ''://''), plus url_unit,
                    Lit (S ''.''), alts (map (\<lambda>e. Lit (S e)) file_extensions)]),
          Lazy any_unit, Lit (S ''</script>'')]"

text \<open>
  Step 4 of the handler: the four patterns in priority order; \<open>None\<close> is the
  \<^verbatim>\<open>directDownloadUrl\<close> that is still \<^verbatim>\<open>null\<close> after them.
\<close>

definition extract_link :: "jsstr \<Rightarrow> jsstr option" where
  "extract_link htmlContent =
     (case group1 True downloadLinkRegex1 htmlContent of
        Some url \<Rightarrow> Some url
      | None \<Rightarrow>
         (case group1 True jsDownloadLinkRegex2 htmlContent of
            Some url \<Rightarrow> Some url
          | None \<Rightarrow>
             (case group1 True dlLinkRegex3 htmlContent of
                Some url \<Rightarrow> Some url
              | None \<Rightarrow> group1 True directLinkInScriptRegex htmlContent)))"

section \<open>Exceptions and \<^verbatim>\<open>decodeURIComponent\<close>\<close>

text \<open>
  What the code can throw inside its \<^verbatim>\<open>try\<close> block: the \<^verbatim>\<open>URIError\<close> of
  \<^verbatim>\<open>decodeURIComponent\<close>, and a failure of the platform (a rejected \<^verbatim>\<open>fetch\<close>, a body
  that cannot be read, a URL that does not parse) with its message. The handler reads
  only \<^verbatim>\<open>error.message\<close>; the text of a \<^verbatim>\<open>URIError\<close> is V8's.
\<close>

datatype fault = URIError | Failure jsstr

fun message :: "fault \<Rightarrow> jsstr" where
  "message URIError = S ''URI malformed''"
| "message (Failure m) = m"

definition hex_digit :: "nat \<Rightarrow> nat option" where
  "hex_digit c =
     (if 48 \<le> c \<and> c \<le> 57 then Some (c - 48)
      else if 65 \<le> c \<and> c \<le> 70 then Some (c - 55)
      else if 97 \<le> c \<and> c \<le> 102 then Some (c - 87)
      else None)"

text \<open>The octet of an escape \<^verbatim>\<open>%XY\<close> at the head of a string.\<close>

definition escape_at :: "jsstr \<Rightarrow> nat option" where
  "escape_at s =
     (case s of
        p # a # b # _ \<Rightarrow>
          (if p = 37 then
             (case hex_digit a of
                None \<Rightarrow> None
              | Some h \<Rightarrow> (case hex_digit b of None \<Rightarrow> None | Some l \<Rightarrow> Some (16 * h + l)))
           else None)
      | _ \<Rightarrow> None)"

text \<open>The octets of \<open>n\<close> escapes in a row at the head of a string.\<close>

fun octets :: "nat \<Rightarrow> jsstr \<Rightarrow> nat list option" where
  "octets 0 s = Some []"
| "octets (Suc n) s =
     (case escape_at s of
        None \<Rightarrow> None
      | Some b \<Rightarrow> (case octets n (drop 3 s) of None \<Rightarrow> None | Some bs \<Rightarrow> Some (b # bs)))"

text \<open>The number of leading 1 bits of an octet (5 stands for more than four).\<close>

definition leading_ones :: "nat \<Rightarrow> nat" where
  "leading_ones b =
     (if b < 128 then 0 else if b < 192 then 1 else if b < 224 then 2
      else if b < 240 then 3 else if b < 248 then 4 else 5)"

definition continuation :: "nat \<Rightarrow> bool" where
  "continuation b = (128 \<le> b \<and> b < 192)"

text \<open>The code point of a well-formed UTF-8 sequence of two to four octets.\<close>

definition utf8_point :: "nat list \<Rightarrow> nat option" where
  "utf8_point bs =
     (case bs of
        [a, b] \<Rightarrow>
          (let v = (a - 192) * 64 + (b - 128)
           in if continuation b \<and> 128 \<le> v then Some v else None)
      | [a, b, c] \<Rightarrow>
          (let v = (a - 224) * 4096 + (b - 128) * 64 + (c - 128)
           in if continuation b \<and> continuation c \<and> 2048 \<le> v \<and> (v < 55296 \<or> 57343 < v)
              then Some v else None)
      | [a, b, c, d] \<Rightarrow>
          (let v = (a - 240) * 262144 + (b - 128) * 4096 + (c - 128) * 64 + (d - 128)
           in if continuation b \<and> continuation c \<and> continuation d \<and> 65536 \<le> v \<and> v \<le> 1114111
              then Some v else None)
      | _ \<Rightarrow> None)"

definition utf16 :: "nat \<Rightarrow> jsstr" where
  "utf16 v =
     (if v < 65536 then [v]
      else [55296 + (v - 65536) div 1024, 56320 + (v - 65536) mod 1024])"

text \<open>
  \<^verbatim>\<open>decodeURIComponent(s)\<close> as the language defines it: an escape below 128 is its
  character, the escapes of a UTF-8 sequence are its code point, anything else after a
  percent sign throws \<^verbatim>\<open>URIError\<close>.
\<close>

fun decodeURIComponent :: "jsstr \<Rightarrow> fault + jsstr" where
  "decodeURIComponent [] = Inr []"
| "decodeURIComponent (c # s) =
     (if c \<noteq> 37 then
        (case decodeURIComponent s of Inl e \<Rightarrow> Inl e | Inr r \<Rightarrow> Inr (c # r))
      else
        (case escape_at (c # s) of
           None \<Rightarrow> Inl URIError
         | Some b \<Rightarrow>
            (if leading_ones b = 0 then
               (case decodeURIComponent (drop 2 s) of Inl e \<Rightarrow> Inl e | Inr r \<Rightarrow> Inr (b # r))
             else if leading_ones b = 1 \<or> 4 < leading_ones b then Inl URIError
             else
               (case octets (leading_ones b - 1) (drop 2 s) of
                  None \<Rightarrow> Inl URIError
                | Some bs \<Rightarrow>
                   (case utf8_point (b # bs) of
                      None \<Rightarrow> Inl URIError
                    | Some v \<Rightarrow>
                       (case decodeURIComponent (drop (2 + 3 * (leading_ones b - 1)) s) of
                          Inl e \<Rightarrow> Inl e
                        | Inr r \<Rightarrow> Inr (utf16 v @ r)))))))"

section \<open>Headers, requests and responses\<close>

text \<open>
  A \<^verbatim>\<open>Headers\<close> object maps a header name, in lower case, to its value: names are
  compared without regard to case.
\<close>

type_synonym headers = "jsstr \<rightharpoonup> jsstr"

definition lower :: "jsstr \<Rightarrow> jsstr" where
  "lower n = map (\<lambda>c. if 65 \<le> c \<and> c \<le> 90 then c + 32 else c) n"

definition headers_get :: "jsstr \<Rightarrow> headers \<Rightarrow> jsstr option" where
  "headers_get n h = h (lower n)"

definition headers_has :: "jsstr \<Rightarrow> headers \<Rightarrow> bool" where
  "headers_has n h = (h (lower n) \<noteq> None)"

definition headers_set :: "jsstr \<Rightarrow> jsstr \<Rightarrow> headers \<Rightarrow> headers" where
  "headers_set n v h = h(lower n \<mapsto> v)"

definition headers_delete :: "jsstr \<Rightarrow> headers \<Rightarrow> headers" where
  "headers_delete n h = h(lower n := None)"

text \<open>
  The incoming request: its method, the value of
  \<^verbatim>\<open>new URL(request.url).searchParams.get('require')\<close> (\<open>None\<close> is \<^verbatim>\<open>null\<close>) and its
  headers.
\<close>

record request =
  req_method :: jsstr
  require :: "jsstr option"
  req_headers :: headers

text \<open>A call of the platform's \<^verbatim>\<open>fetch\<close>: the URL and the headers sent.\<close>

record fetch_call =
  target :: jsstr
  sent :: headers

text \<open>
  An upstream response: status, reason text, headers, what \<^verbatim>\<open>text()\<close> gives (or throws)
  and the bytes of the body.
\<close>

record upstream =
  up_status :: nat
  up_statusText :: jsstr
  up_headers :: headers
  up_text :: "fault + jsstr"
  up_body :: "nat list"

definition ok :: "upstream \<Rightarrow> bool" where
  "ok r = (200 \<le> up_status r \<and> up_status r \<le> 299)"

text \<open>
  What the code does not contain and only calls: the network, which answers a call given
  the calls made before it in this request (or rejects), and the URL parser, which gives
  \<^verbatim>\<open>new URL(s).pathname\<close> (or throws). Following redirects (\<^verbatim>\<open>redirect: 'follow'\<close>) is part
  of how the network answers. The checks that \<^verbatim>\<open>Headers.set\<close> makes on a value and
  \<^verbatim>\<open>new Response\<close> on a status are not modelled: the model describes the runs in which they
  pass.
\<close>

record platform =
  net_fetch :: "fetch_call list \<Rightarrow> fetch_call \<Rightarrow> fault + upstream"
  url_pathname :: "jsstr \<Rightarrow> fault + jsstr"

text \<open>
  The outgoing response. The body of an error is the object that \<^verbatim>\<open>JSON.stringify\<close>
  serialises, with its two fields; the body of a relay is the upstream byte stream.
\<close>

datatype body = NoBody | Json (error: jsstr) (link_provided: jsstr) | Stream "nat list"

record response =
  r_status :: nat
  r_headers :: headers
  r_body :: body

text \<open>The four CORS headers, set in the same way at the three places that build headers.\<close>

definition cors :: "headers \<Rightarrow> headers" where
  "cors h =
     headers_set (S ''Access-Control-Max-Age'') (S ''86400'')
       (headers_set (S ''Access-Control-Allow-Headers'') (S ''Content-Type'')
          (headers_set (S ''Access-Control-Allow-Methods'') (S ''GET, HEAD, OPTIONS'')
             (headers_set (S ''Access-Control-Allow-Origin'') (S ''*'') h)))"

definition createErrorResponse :: "jsstr \<Rightarrow> nat \<Rightarrow> jsstr option \<Rightarrow> response" where
  "createErrorResponse msg status mediaFireLink =
     \<lparr>r_status = status,
      r_headers = cors (headers_set (S ''Content-Type'') (S ''application/json'') Map.empty),
      r_body = Json msg
        (case mediaFireLink of
           None \<Rightarrow> S ''N/A''
         | Some l \<Rightarrow> if l = [] then S ''N/A'' else l)\<rparr>"

section \<open>The file name of the relayed response\<close>

text \<open>\<^verbatim>\<open>/filename\*?=['"]?(?:UTF-8'')?([^;"]+)/i\<close>\<close>

definition filenameRegex :: rx where
  "filenameRegex =
     cat [Lit (S ''filename''), Opt (Lit (S ''*'')), Lit (S ''=''), Opt (Cls any_quote),
          Opt (Lit (S ''UTF-8'' @ [39, 39])), Grp (plus not_semi_quote)]"

text \<open>\<^verbatim>\<open>/\/file\/([a-zA-Z0-9]+)\//\<close>, without the flag \<^verbatim>\<open>i\<close>\<close>

definition hashRegex :: rx where
  "hashRegex = cat [Lit (S ''/file/''), Grp (plus alnum), Lit (S ''/'')]"

definition downloaded_file :: jsstr where
  "downloaded_file = S ''downloaded_file''"

text \<open>
  Lines 161 to 170: the name taken from the upstream \<^verbatim>\<open>Content-Disposition\<close>. The call
  of \<^verbatim>\<open>decodeURIComponent\<close> stands in the outer \<^verbatim>\<open>try\<close> only, so what it throws leaves
  the computation.
\<close>

definition disposition_filename :: "headers \<Rightarrow> fault + jsstr" where
  "disposition_filename fileHeaders =
     (case headers_get (S ''Content-Disposition'') fileHeaders of
        None \<Rightarrow> Inr downloaded_file
      | Some contentDispositionHeader \<Rightarrow>
          (if contentDispositionHeader = [] then Inr downloaded_file
           else
             (case group1 True filenameRegex contentDispositionHeader of
                None \<Rightarrow> Inr downloaded_file
              | Some g \<Rightarrow> decodeURIComponent g)))"

text \<open>
  Lines 174 to 189: the name taken from the path of the source link. Everything thrown
  here is caught by the inner \<^verbatim>\<open>catch\<close>, which keeps the default name.
\<close>

definition link_filename :: "platform \<Rightarrow> jsstr \<Rightarrow> jsstr" where
  "link_filename P mediaFireLink =
     (case url_pathname P mediaFireLink of
        Inl e \<Rightarrow> downloaded_file
      | Inr path \<Rightarrow>
          (let segments = split 47 path;
               lastSegment =
                 (if 2 \<le> length segments then segments ! (length segments - 2) else [])
           in if lastSegment \<noteq> [] \<and> lastSegment \<noteq> S ''file'' then
                (case decodeURIComponent (map (\<lambda>c. if c = 43 then 32 else c) lastSegment) of
                   Inl e \<Rightarrow> downloaded_file
                 | Inr name \<Rightarrow> name)
              else
                (case group1 False hashRegex path of
                   Some h \<Rightarrow> S ''mediafire_file_'' @ h
                 | None \<Rightarrow> downloaded_file)))"

definition extMap :: "(jsstr \<times> jsstr) list" where
  "extMap = map (\<lambda>(m, e). (S m, S e))
     [(''image/jpeg'', ''jpg''), (''image/png'', ''png''), (''image/gif'', ''gif''),
      (''application/pdf'', ''pdf''), (''application/zip'', ''zip''),
      (''application/vnd.rar'', ''rar''), (''application/x-7z-compressed'', ''7z''),
      (''audio/mpeg'', ''mp3''), (''video/mp4'', ''mp4''),
      (''application/vnd.openxmlformats-officedocument.wordprocessingml.document'', ''docx''),
      (''application/msword'', ''doc''),
      (''application/vnd.openxmlformats-officedocument.spreadsheetml.sheet'', ''xlsx''),
      (''application/vnd.ms-excel'', ''xls''),
      (''application/vnd.openxmlformats-officedocument.presentationml.presentation'', ''pptx''),
      (''application/vnd.ms-powerpoint'', ''ppt''),
      (''application/x-bittorrent'', ''torrent''),
      (''application/x-iso9660-image'', ''iso''),
      (''application/vnd.android.package-archive'', ''apk''),
      (''text/plain'', ''txt'')]"

text \<open>
  \<^verbatim>\<open>extMap\<close> is an object literal, so \<^verbatim>\<open>extMap[mime]\<close> also finds what every object
  inherits: for these names the value is a function or an object, which is truthy, and
  the code uses its string form (as V8 prints it).
\<close>

definition inherited :: "jsstr \<Rightarrow> jsstr option" where
  "inherited k =
     (if k = S ''__proto__'' then Some (S ''[object Object]'')
      else if k = S ''constructor'' then Some (S ''function Object() { [native code] }'')
      else if k \<in> set (map S [''toString'', ''toLocaleString'', ''valueOf'', ''hasOwnProperty'',
                ''isPrototypeOf'', ''propertyIsEnumerable'', ''__defineGetter__'',
                ''__defineSetter__'', ''__lookupGetter__'', ''__lookupSetter__''])
      then Some (S ''function '' @ k @ S ''() { [native code] }'')
      else None)"

text \<open>\<^verbatim>\<open>extMap[mime] || mime.split('/')[1]\<close>, where it is truthy\<close>

definition extension_of :: "jsstr \<Rightarrow> jsstr option" where
  "extension_of mime =
     (case map_of extMap mime of
        Some e \<Rightarrow> Some e
      | None \<Rightarrow>
         (case inherited mime of
            Some t \<Rightarrow> Some t
          | None \<Rightarrow>
             (case split 47 mime of
                _ # e # _ \<Rightarrow> if e = [] then None else Some e
              | _ \<Rightarrow> None)))"

text \<open>Lines 192 to 215: the extension inferred from the \<^verbatim>\<open>Content-Type\<close> of the response.\<close>

definition add_extension :: "jsstr \<Rightarrow> headers \<Rightarrow> jsstr" where
  "add_extension filename hs =
     (case headers_get (S ''Content-Type'') hs of
        None \<Rightarrow> filename
      | Some ct \<Rightarrow>
          (if 46 \<notin> set filename \<and> ct \<noteq> [] then
             (case extension_of (case split 59 ct of mime # _ \<Rightarrow> mime | [] \<Rightarrow> []) of
                None \<Rightarrow> filename
              | Some ext \<Rightarrow> if js_includes filename ext then filename else filename @ [46] @ ext)
           else filename))"

text \<open>
  Lines 160 to 216: the file name. \<open>hs\<close> are the headers of the response under
  construction, which already hold the resolved \<^verbatim>\<open>Content-Type\<close>.
\<close>

definition compute_filename :: "platform \<Rightarrow> jsstr \<Rightarrow> headers \<Rightarrow> headers \<Rightarrow> fault + jsstr" where
  "compute_filename P mediaFireLink fileHeaders hs =
     (case disposition_filename fileHeaders of
        Inl e \<Rightarrow> Inl e
      | Inr filename \<Rightarrow>
          (if filename = downloaded_file then Inr (add_extension (link_filename P mediaFireLink) hs)
           else Inr filename))"

section \<open>The handler\<close>

text \<open>Lines 222 to 228: the headers removed before the response is sent.\<close>

definition scrub :: "headers \<Rightarrow> headers" where
  "scrub h =
     headers_delete (S ''accept-ranges'')
       (headers_delete (S ''content-encoding'')
         (headers_delete (S ''etag'')
           (headers_delete (S ''vary'')
             (headers_delete (S ''alt-svc'')
               (headers_delete (S ''cf-ray'')
                 (headers_delete (S ''set-cookie'') h))))))"

text \<open>
  Lines 144 to 158: the headers of the relayed response before the file name is known:
  the CORS set, the upstream \<^verbatim>\<open>Content-Type\<close> or its default, and the upstream
  \<^verbatim>\<open>Content-Length\<close> when there is one.
\<close>

definition base_headers :: "upstream \<Rightarrow> headers" where
  "base_headers fileResponse =
     (let h1 = cors Map.empty;
          h2 = headers_set (S ''Content-Type'')
                 (case headers_get (S ''Content-Type'') (up_headers fileResponse) of
                    None \<Rightarrow> S ''application/octet-stream''
                  | Some v \<Rightarrow> if v = [] then S ''application/octet-stream'' else v) h1
      in case headers_get (S ''Content-Length'') (up_headers fileResponse) of
           None \<Rightarrow> h2
         | Some v \<Rightarrow> headers_set (S ''Content-Length'') v h2)"

text \<open>Step 6, lines 144 to 230: the response that relays the upstream file.\<close>

definition relay :: "platform \<Rightarrow> jsstr \<Rightarrow> upstream \<Rightarrow> fault + response" where
  \<open>relay P mediaFireLink fileResponse =
     (case compute_filename P mediaFireLink (up_headers fileResponse) (base_headers fileResponse) of
        Inl e \<Rightarrow> Inl e
      | Inr filename \<Rightarrow>
          Inr \<lparr>r_status = up_status fileResponse,
               r_headers =
                 scrub (headers_set (S ''Content-Disposition'')
                          (S ''attachment; filename="'' @ filename @ S ''"'')
                          (base_headers fileResponse)),
               r_body = Stream (up_body fileResponse)\<rparr>)\<close>

definition msg_missing :: jsstr where
  "msg_missing = S ''Falta el par'' @ [225] @ S ''metro '' @ [39] @ S ''require'' @ [39]
     @ S ''. Por favor, proporciona un enlace de MediaFire.''"

definition msg_invalid :: jsstr where
  "msg_invalid = S ''Enlace de MediaFire inv'' @ [225]
     @ S ''lido. Debe comenzar con http(s)://www.mediafire.com/''"

definition msg_page :: "upstream \<Rightarrow> jsstr" where
  "msg_page r = S ''Error al obtener la p'' @ [225] @ S ''gina de MediaFire: ''
     @ dec (up_status r) @ S '' '' @ up_statusText r"

definition msg_extraction :: jsstr where
  "msg_extraction = S ''No se pudo encontrar el enlace de descarga directo en la p'' @ [225]
     @ S ''gina de MediaFire. La estructura de la p'' @ [225] @ S ''gina podr'' @ [237]
     @ S ''a haber cambiado.''"

definition msg_download :: "upstream \<Rightarrow> jsstr" where
  "msg_download r = S ''Error al descargar el archivo del enlace directo: ''
     @ dec (up_status r) @ S '' '' @ up_statusText r"

definition msg_internal :: "fault \<Rightarrow> jsstr" where
  "msg_internal e = S ''Error interno del servidor al procesar la solicitud: '' @ message e"

text \<open>The \<^verbatim>\<open>catch\<close> of the outer \<^verbatim>\<open>try\<close>, lines 232 to 239.\<close>

definition caught :: "fault \<Rightarrow> jsstr \<Rightarrow> response" where
  "caught e mediaFireLink = createErrorResponse (msg_internal e) 500 (Some mediaFireLink)"

definition page_call :: "jsstr \<Rightarrow> fetch_call" where
  "page_call mediaFireLink =
     \<lparr>target = mediaFireLink,
      sent = headers_set (S ''Accept'')
               (S ''text/html,application/xhtml+xml,application/xml;q=0.9,image/webp,*/*;q=0.8'')
               (headers_set (S ''User-Agent'')
                  (S ''Mozilla/5.0 (Windows NT 10.0; Win64; x64) AppleWebKit/537.36 (KHTML, like Gecko) Chrome/120.0.0.0 Safari/537.36'')
                  Map.empty)\<rparr>"

definition file_call :: "request \<Rightarrow> jsstr \<Rightarrow> fetch_call" where
  "file_call request directDownloadUrl =
     \<lparr>target = directDownloadUrl,
      sent = headers_set (S ''User-Agent'')
               (case headers_get (S ''User-Agent'') (req_headers request) of
                  None \<Rightarrow> S ''Mozilla/5.0 (Cloudflare Worker Download Proxy)''
                | Some ua \<Rightarrow>
                    if ua = [] then S ''Mozilla/5.0 (Cloudflare Worker Download Proxy)'' else ua)
               Map.empty\<rparr>"

text \<open>
  The \<^verbatim>\<open>try\<close> block, lines 68 to 231, for a link that passed validation. The result is
  the response and the calls of \<^verbatim>\<open>fetch\<close> made, in order.
\<close>

definition pipeline :: "platform \<Rightarrow> request \<Rightarrow> jsstr \<Rightarrow> response \<times> fetch_call list" where
  "pipeline P request mediaFireLink =
     (let c1 = page_call mediaFireLink in
      case net_fetch P [] c1 of
        Inl e \<Rightarrow> (caught e mediaFireLink, [c1])
      | Inr mediafirePageResponse \<Rightarrow>
          if \<not> ok mediafirePageResponse then
            (createErrorResponse (msg_page mediafirePageResponse)
               (up_status mediafirePageResponse) (Some mediaFireLink), [c1])
          else
            (case up_text mediafirePageResponse of
               Inl e \<Rightarrow> (caught e mediaFireLink, [c1])
             | Inr htmlContent \<Rightarrow>
                 (case extract_link htmlContent of
                    None \<Rightarrow> (createErrorResponse msg_extraction 500 (Some mediaFireLink), [c1])
                  | Some directDownloadUrl \<Rightarrow>
                      (let c2 = file_call request directDownloadUrl in
                       case net_fetch P [c1] c2 of
                         Inl e \<Rightarrow> (caught e mediaFireLink, [c1, c2])
                       | Inr fileResponse \<Rightarrow>
                           if \<not> ok fileResponse then
                             (createErrorResponse (msg_download fileResponse)
                                (up_status fileResponse) (Some mediaFireLink), [c1, c2])
                           else
                             (case relay P mediaFireLink fileResponse of
                                Inl e \<Rightarrow> (caught e mediaFireLink, [c1, c2])
                              | Inr r \<Rightarrow> (r, [c1, c2]))))))"

text \<open>The handler \<^verbatim>\<open>fetch(request)\<close>, lines 34 to 240.\<close>

definition fetch :: "platform \<Rightarrow> request \<Rightarrow> response \<times> fetch_call list" where
  "fetch P request =
     (if req_method request = S ''OPTIONS'' then
        (\<lparr>r_status = 204, r_headers = cors Map.empty, r_body = NoBody\<rparr>, [])
      else
        (case require request of
           None \<Rightarrow> (createErrorResponse msg_missing 400 None, [])
         | Some mediaFireLink \<Rightarrow>
             if mediaFireLink = [] then (createErrorResponse msg_missing 400 None, [])
             else if \<not> startsWith mediaFireLink (S ''http://www.mediafire.com/'')
                     \<and> \<not> startsWith mediaFireLink (S ''https://www.mediafire.com/'')
             then (createErrorResponse msg_invalid 400 (Some mediaFireLink), [])
             else pipeline P request mediaFireLink))"

section \<open>Properties of responses\<close>

text \<open>The full CORS header set.\<close>

definition has_cors :: "headers \<Rightarrow> bool" where
  "has_cors h =
     (headers_get (S ''Access-Control-Allow-Origin'') h = Some (S ''*'')
      \<and> headers_get (S ''Access-Control-Allow-Methods'') h = Some (S ''GET, HEAD, OPTIONS'')
      \<and> headers_get (S ''Access-Control-Allow-Headers'') h = Some (S ''Content-Type'')
      \<and> headers_get (S ''Access-Control-Max-Age'') h = Some (S ''86400''))"

text \<open>None of the seven upstream headers that the relay removes is present.\<close>

definition scrubbed :: "headers \<Rightarrow> bool" where
  "scrubbed h =
     (\<not> headers_has (S ''set-cookie'') h \<and> \<not> headers_has (S ''etag'') h
      \<and> \<not> headers_has (S ''vary'') h \<and> \<not> headers_has (S ''accept-ranges'') h
      \<and> \<not> headers_has (S ''content-encoding'') h \<and> \<not> headers_has (S ''cf-ray'') h
      \<and> \<not> headers_has (S ''alt-svc'') h)"

section \<open>Occurrences of a literal in a text\<close>

text \<open>
  \<open>lit_eq ic l x\<close>: the text \<open>x\<close> is the literal \<open>l\<close>, up to letter case when \<open>ic\<close> holds.
  \<open>positions ic l s\<close>: the positions of \<open>s\<close> at which \<open>l\<close> occurs, in increasing order.
  The three literals of pattern 1 get names.
\<close>

definition lit_eq :: "bool \<Rightarrow> jsstr \<Rightarrow> jsstr \<Rightarrow> bool" where
  "lit_eq ic l x = (length x = length l \<and> lit_prefix ic l x)"

definition anchor_open :: jsstr where
  "anchor_open = S ''<a''"

definition button_id :: jsstr where
  \<open>button_id = S ''id="download-button"''\<close>

definition href_open :: jsstr where
  \<open>href_open = S ''href="''\<close>

fun positions :: "bool \<Rightarrow> jsstr \<Rightarrow> jsstr \<Rightarrow> nat list" where
  "positions ic l [] = (if lit_prefix ic l [] then [0] else [])"
| "positions ic l (x # xs) =
     (if lit_prefix ic l (x # xs) then [0] else []) @ map Suc (positions ic l xs)"

section \<open>Example inputs\<close>

text \<open>
  A platform for the examples: the first call of \<^verbatim>\<open>fetch\<close> is answered with the landing
  page and the next with the file. Its links are plain (scheme, host and a path with no
  query, fragment, dot segment or character that the URL parser rewrites), where the
  parser's \<^verbatim>\<open>pathname\<close> is the text from the third slash on.
\<close>

definition simple_pathname :: "jsstr \<Rightarrow> fault + jsstr" where
  "simple_pathname s = Inr (dropWhile (\<lambda>c. c \<noteq> 47) (drop 2 (dropWhile (\<lambda>c. c \<noteq> 47) s)))"

definition site :: "upstream \<Rightarrow> upstream \<Rightarrow> platform" where
  "site page file =
     \<lparr>net_fetch = (\<lambda>earlier c. if earlier = [] then Inr page else Inr file),
      url_pathname = simple_pathname\<rparr>"

definition request_for :: "string \<Rightarrow> jsstr option \<Rightarrow> request" where
  "request_for m link = \<lparr>req_method = S m, require = link, req_headers = Map.empty\<rparr>"

definition link_video :: jsstr where
  "link_video = S ''https://www.mediafire.com/file/abc123/video.mp4/file''"

definition url_video :: jsstr where
  "url_video = S ''https://download123.mediafire.com/xyz/video.mp4''"

definition html_anchor :: jsstr where
  \<open>html_anchor =
     S ''<html><a class="btn" id="download-button" href="https://download123.mediafire.com/xyz/video.mp4">Download</a></html>''\<close>

definition html_plain :: jsstr where
  "html_plain = S ''<html><body>File removed</body></html>''"

definition page_of :: "jsstr \<Rightarrow> upstream" where
  "page_of html =
     \<lparr>up_status = 200, up_statusText = S ''OK'',
      up_headers = [S ''content-type'' \<mapsto> S ''text/html; charset=utf-8''],
      up_text = Inr html, up_body = []\<rparr>"

definition file_video :: upstream where
  "file_video =
     \<lparr>up_status = 200, up_statusText = S ''OK'',
      up_headers =
        [S ''content-type'' \<mapsto> S ''video/mp4'', S ''set-cookie'' \<mapsto> S ''ukey=1'',
         S ''etag'' \<mapsto> S ''abc'', S ''vary'' \<mapsto> S ''Accept-Encoding'',
         S ''accept-ranges'' \<mapsto> S ''bytes'', S ''content-encoding'' \<mapsto> S ''gzip'',
         S ''cf-ray'' \<mapsto> S ''8f1'', S ''alt-svc'' \<mapsto> S ''h3=:443''],
      up_text = Inr [], up_body = [0, 1, 2]\<rparr>"

definition file_named :: "jsstr \<Rightarrow> jsstr \<Rightarrow> upstream" where
  "file_named disposition ct =
     \<lparr>up_status = 200, up_statusText = S ''OK'',
      up_headers = [S ''content-type'' \<mapsto> ct, S ''content-disposition'' \<mapsto> disposition],
      up_text = Inr [], up_body = [0, 1, 2]\<rparr>"

definition link_my_file :: jsstr where
  "link_my_file = S ''https://www.mediafire.com/file/abc123/My+File/file''"

definition link_percent :: jsstr where
  "link_percent = S ''https://www.mediafire.com/file/abc123/100%/file''"

definition html_both :: jsstr where
  \<open>html_both = S ''<div><a class="btn" id="download-button" href="https://download123.mediafire.com/xyz/video.mp4" rel="nofollow">Download</a><script>var download_url = "https://example.com/other.zip";</script></div>''\<close>

definition html_href_first :: jsstr where
  \<open>html_href_first = S ''<a href="https://download123.mediafire.com/xyz/video.mp4" id="download-button">Download</a>''\<close>

definition html_two_hrefs :: jsstr where
  \<open>html_two_hrefs = S ''<a id="download-button" href="https://download123.mediafire.com/xyz/video.mp4" data-href="https://example.com/other.zip">Download</a>''\<close>

definition html_href_suffix :: jsstr where
  \<open>html_href_suffix = S ''<a id="download-button" href="https://download123.mediafire.com/?href=">click "here"</a>''\<close>

definition html_var :: jsstr where
  \<open>html_var = S ''<script>var download_url = "https://download123.mediafire.com/xyz/video.mp4";</script>''\<close>

definition html_no_var :: jsstr where
  \<open>html_no_var = S ''<script>download_url = "https://download123.mediafire.com/xyz/archive";</script>''\<close>

section \<open>Facts about headers and responses\<close>

lemmas hdr = headers_get_def headers_set_def headers_delete_def headers_has_def lower_def S_def

lemma has_cors_cors: "has_cors (cors h)"
  by (simp add: has_cors_def cors_def hdr)

lemma has_cors_error: "has_cors (r_headers (createErrorResponse m s l))"
  by (simp add: createErrorResponse_def has_cors_cors)

lemma has_cors_caught: "has_cors (r_headers (caught e l))"
  by (simp add: caught_def has_cors_error)

lemma scrubbed_scrub: "scrubbed (scrub h)"
  by (simp add: scrubbed_def scrub_def hdr)

lemma has_cors_scrub: "has_cors h \<Longrightarrow> has_cors (scrub h)"
  by (simp add: has_cors_def scrub_def hdr)

lemma has_cors_set:
  "has_cors h \<Longrightarrow> has_cors (headers_set (S ''Content-Type'') v h)"
  "has_cors h \<Longrightarrow> has_cors (headers_set (S ''Content-Length'') v h)"
  "has_cors h \<Longrightarrow> has_cors (headers_set (S ''Content-Disposition'') v h)"
  by (simp_all add: has_cors_def hdr)

lemma has_cors_base: "has_cors (base_headers f)"
  unfolding base_headers_def Let_def
  by (cases "headers_get (S ''Content-Length'') (up_headers f)")
     (simp_all add: has_cors_set has_cors_cors)

lemma has_cors_relay: "relay P l f = Inr r \<Longrightarrow> has_cors (r_headers r)"
  unfolding relay_def
  by (auto simp: has_cors_scrub has_cors_set has_cors_base split: sum.splits)

lemma scrubbed_relay: "relay P l f = Inr r \<Longrightarrow> scrubbed (r_headers r)"
  unfolding relay_def
  by (auto simp: scrubbed_scrub split: sum.splits)

lemma has_cors_pipeline: "has_cors (r_headers (fst (pipeline P request l)))"
  by (auto simp: pipeline_def Let_def has_cors_error has_cors_caught has_cors_relay
      split: sum.splits option.splits)

lemma stream_pipeline:
  "pipeline P request l = (r, calls) \<Longrightarrow> r_body r = Stream bytes \<Longrightarrow> scrubbed (r_headers r)"
  by (auto simp: pipeline_def Let_def createErrorResponse_def caught_def scrubbed_relay
      split: sum.splits option.splits if_splits)

text \<open>A request that passes validation runs the pipeline.\<close>

lemma fetch_valid:
  assumes "req_method request \<noteq> S ''OPTIONS''" and "require request = Some l"
    and "startsWith l (S ''http://www.mediafire.com/'') \<or> startsWith l (S ''https://www.mediafire.com/'')"
  shows "fetch P request = pipeline P request l"
proof -
  have "l \<noteq> []"
    using assms(3) by (auto simp: startsWith_def S_def)
  then show ?thesis
    using assms by (auto simp: fetch_def)
qed

text \<open>A run that reaches the relay: both fetches succeed and a pattern matches.\<close>

lemma pipeline_relay:
  assumes "net_fetch P [] (page_call l) = Inr page" and "ok page" and "up_text page = Inr html"
    and "extract_link html = Some url"
    and "net_fetch P [page_call l] (file_call request url) = Inr file" and "ok file"
  shows "pipeline P request l =
           (case relay P l file of Inl e \<Rightarrow> caught e l | Inr r \<Rightarrow> r,
            [page_call l, file_call request url])"
  using assms by (simp add: pipeline_def Let_def split: sum.splits)

lemma extract_html_anchor: "extract_link html_anchor = Some url_video"
  by (simp add: html_anchor_def url_video_def extract_link_def group1_def downloadLinkRegex1_def
      cat_def plus_def S_def same_def canon_def not_gt_def not_quote_def)

lemma ok_examples: "ok (page_of html)" "ok file_video" "ok (file_named d ct)"
  by (simp_all add: ok_def page_of_def file_video_def file_named_def)

lemma link_video_valid: "startsWith link_video (S ''https://www.mediafire.com/'')"
  by (simp add: link_video_def startsWith_def S_def)

text \<open>The example site, asked for a valid link with a method that is not OPTIONS.\<close>

lemma fetch_site:
  assumes "S m \<noteq> S ''OPTIONS''" and "ok file" and "startsWith l (S ''https://www.mediafire.com/'')"
  shows "fetch (site (page_of html_anchor) file) (request_for m (Some l)) =
           (case relay (site (page_of html_anchor) file) l file of
              Inl e \<Rightarrow> caught e l | Inr r \<Rightarrow> r,
            [page_call l, file_call (request_for m (Some l)) url_video])"
proof -
  let ?P = "site (page_of html_anchor) file" and ?rq = "request_for m (Some l)"
  have "fetch ?P ?rq = pipeline ?P ?rq l"
    by (rule fetch_valid) (simp_all add: request_for_def assms)
  also have "\<dots> = (case relay ?P l file of Inl e \<Rightarrow> caught e l | Inr r \<Rightarrow> r,
            [page_call l, file_call ?rq url_video])"
    by (rule pipeline_relay [where page = "page_of html_anchor" and html = html_anchor])
       (use assms in \<open>simp_all add: site_def ok_def page_of_def extract_html_anchor\<close>)
  finally show ?thesis .
qed

lemmas name_eval = compute_filename_def disposition_filename_def link_filename_def add_extension_def
  extension_of_def inherited_def extMap_def downloaded_file_def filenameRegex_def hashRegex_def
  group1_def cat_def plus_def same_def canon_def not_semi_quote_def any_quote_def alnum_def
  escape_at_def hex_digit_def startsWith_def

lemma relay_video:
  "\<exists>r. relay (site (page_of html_anchor) file_video) link_video file_video = Inr r
     \<and> r_body r = Stream [0, 1, 2]
     \<and> headers_get (S ''Content-Disposition'') (r_headers r)
         = Some (S ''attachment; filename='' @ [34] @ S ''video.mp4'' @ [34])"
  by (simp add: relay_def base_headers_def Let_def name_eval site_def simple_pathname_def
      link_video_def file_video_def cors_def scrub_def hdr)

lemma pipeline_method:
  assumes "req_headers r1 = req_headers r2"
  shows "pipeline P r1 l = pipeline P r2 l"
proof -
  have "file_call r1 = file_call r2"
    using assms by (intro ext) (simp add: file_call_def)
  then show ?thesis
    unfolding pipeline_def by (rule arg_cong [where f = "\<lambda>f. _ f"])
qed

lemma base_content_type:
  "headers_get (S ''Content-Type'') (up_headers f) = Some ct \<Longrightarrow> ct \<noteq> [] \<Longrightarrow>
   headers_get (S ''Content-Type'') (base_headers f) = Some ct"
  unfolding base_headers_def Let_def
  by (cases "headers_get (S ''Content-Length'') (up_headers f)") (simp_all add: hdr)

lemma disposition_scrub_set:
  "headers_get (S ''Content-Disposition'') (scrub (headers_set (S ''Content-Disposition'') v h)) = Some v"
  by (simp add: scrub_def hdr)

lemma relay_disposition:
  \<open>compute_filename P l (up_headers f) (base_headers f) = Inr name \<Longrightarrow>
   \<exists>r. relay P l f = Inr r \<and> r_status r = up_status f \<and> r_body r = Stream (up_body f)
     \<and> headers_get (S ''Content-Disposition'') (r_headers r)
         = Some (S ''attachment; filename="'' @ name @ S ''"'')\<close>
  by (simp add: relay_def disposition_scrub_set)

lemma disposition_report:
  \<open>headers_get (S ''Content-Disposition'') fh = Some (S ''attachment; filename="report.pdf"'') \<Longrightarrow>
   disposition_filename fh = Inr (S ''report.pdf'')\<close>
  by (simp add: disposition_filename_def filenameRegex_def group1_def cat_def plus_def same_def
      canon_def not_semi_quote_def any_quote_def S_def)

lemma link_filename_my_file:
  "url_pathname P link = Inr (S ''/file/abc123/My+File/file'') \<Longrightarrow>
   link_filename P link = S ''My File''"
  by (simp add: link_filename_def S_def Let_def)

lemma extMap_values:
  "map_of extMap mime = Some ext \<Longrightarrow>
   ext \<in> set (map S [''jpg'', ''png'', ''gif'', ''pdf'', ''zip'', ''rar'', ''7z'', ''mp3'', ''mp4'',
     ''docx'', ''doc'', ''xlsx'', ''xls'', ''pptx'', ''ppt'', ''torrent'', ''iso'', ''apk'', ''txt''])"
  by (drule map_of_SomeD) (auto simp: extMap_def)

lemma my_file_no_extension:
  assumes "map_of extMap mime = Some ext"
  shows "\<not> js_includes (S ''My File'') ext"
  using extMap_values [OF assms] by (auto simp: S_def startsWith_def)


lemma add_extension_mapped:
  assumes "46 \<notin> set name" and "headers_get (S ''Content-Type'') hs = Some ct"
    and "split 59 ct = mime # rest" and "map_of extMap mime = Some ext"
  shows "add_extension name hs = (if js_includes name ext then name else name @ [46] @ ext)"
proof -
  have "ct \<noteq> []"
    using assms(3,4) by (auto simp: extMap_def S_def)
  then show ?thesis
    using assms by (simp add: add_extension_def extension_of_def)
qed

lemma links_valid:
  "startsWith link_my_file (S ''https://www.mediafire.com/'')"
  "startsWith link_percent (S ''https://www.mediafire.com/'')"
  by (simp_all add: link_my_file_def link_percent_def startsWith_def S_def)

lemma pathname_my_file:
  "url_pathname (site page file) link_my_file = Inr (S ''/file/abc123/My+File/file'')"
  by (simp add: site_def simple_pathname_def link_my_file_def S_def)

lemma file_video_headers:
  "headers_get (S ''Content-Disposition'') (up_headers file_video) = None"
  "headers_get (S ''Content-Type'') (up_headers file_video) = Some (S ''video/mp4'')"
  by (simp_all add: file_video_def hdr)

lemma file_named_headers:
  "headers_get (S ''Content-Disposition'') (up_headers (file_named d ct)) = Some d"
  "headers_get (S ''Content-Type'') (up_headers (file_named d ct)) = Some ct"
  by (simp_all add: file_named_def hdr)

lemma mime_mp4:
  "split 59 (S ''video/mp4'') = [S ''video/mp4'']" "map_of extMap (S ''video/mp4'') = Some (S ''mp4'')"
  by (simp_all add: extMap_def S_def)

lemma mime_pdf:
  "split 59 (S ''application/pdf'') = [S ''application/pdf'']"
  "map_of extMap (S ''application/pdf'') = Some (S ''pdf'')"
  by (simp_all add: extMap_def S_def)

lemma disposition_named:
  \<open>disposition_filename (up_headers (file_named (S ''attachment; filename="report"'') ct))
     = Inr (S ''report'')\<close>
  \<open>disposition_filename (up_headers (file_named (S ''attachment; filename="100%.pdf"'') ct))
     = Inl URIError\<close>
  unfolding disposition_filename_def file_named_headers
  by (simp_all add: filenameRegex_def group1_def cat_def
      plus_def same_def canon_def not_semi_quote_def any_quote_def escape_at_def hex_digit_def S_def)

lemma base_type_video:
  "headers_get (S ''Content-Type'') (base_headers file_video) = Some (S ''video/mp4'')"
  by (rule base_content_type [OF file_video_headers(2)]) (simp add: S_def)

lemma S_facts:
  "S ''report'' \<noteq> downloaded_file" "46 \<notin> set (S ''report'')" "46 \<notin> set (S ''My File'')"
  "46 \<notin> set downloaded_file" "\<not> js_includes (S ''report'') (S ''pdf'')"
  "\<not> js_includes (S ''My File'') (S ''mp4'')" "\<not> js_includes downloaded_file (S ''mp4'')"
  by (simp_all add: downloaded_file_def S_def startsWith_def)

lemma fetch_site_named:
  assumes "compute_filename (site (page_of html_anchor) file) l (up_headers file) (base_headers file) = Inr name"
    and "ok file" and "startsWith l (S ''https://www.mediafire.com/'')"
  shows \<open>r_status (fst (fetch (site (page_of html_anchor) file) (request_for ''GET'' (Some l))))
            = up_status file
         \<and> headers_get (S ''Content-Disposition'')
             (r_headers (fst (fetch (site (page_of html_anchor) file) (request_for ''GET'' (Some l)))))
            = Some (S ''attachment; filename="'' @ name @ S ''"'')\<close>
proof -
  obtain r where "relay (site (page_of html_anchor) file) l file = Inr r"
    and "r_status r = up_status file"
    and \<open>headers_get (S ''Content-Disposition'') (r_headers r)
           = Some (S ''attachment; filename="'' @ name @ S ''"'')\<close>
    using relay_disposition [OF assms(1)] by blast
  then show ?thesis
    using fetch_site [of "''GET''" "file" "l", OF _ assms(2,3)] by (simp add: S_def)
qed

section \<open>Facts about the matcher\<close>

lemma same_refl: "same ic p p"
  by (simp add: same_def)

lemma lit_prefix_append: "lit_prefix ic l (l @ s)"
  by (induction l) (simp_all add: same_refl)

lemma lit_prefix_split:
  "lit_prefix ic l s \<Longrightarrow> \<exists>x s'. s = x @ s' \<and> lit_eq ic l x"
proof (induction ic l s rule: lit_prefix.induct)
  case (1 ic s)
  then show ?case by (simp add: lit_eq_def)
next
  case (2 ic p ps)
  then show ?case by simp
next
  case (3 ic p ps x xs)
  then obtain y s' where "xs = y @ s'" "lit_eq ic ps y"
    by auto
  then have "x # xs = (x # y) @ s'" "lit_eq ic (p # ps) (x # y)"
    using 3 by (simp_all add: lit_eq_def)
  then show ?case by blast
qed

lemma lit_eq_prefix: "lit_eq ic l x \<Longrightarrow> lit_prefix ic l (x @ s)"
proof (induction ic l x rule: lit_prefix.induct)
qed (simp_all add: lit_eq_def)

lemma lit_eq_refl: "lit_eq ic l l"
  using lit_prefix_append [of ic l "[]"] by (simp add: lit_eq_def)

text \<open>A unit of a text that matches a literal matches a unit of the literal.\<close>

lemma lit_eq_set:
  "lit_eq ic l x \<Longrightarrow> c \<in> set x \<Longrightarrow> \<exists>p \<in> set l. same ic p c"
proof (induction ic l x rule: lit_prefix.induct)
qed (auto simp: lit_eq_def)

lemma lit_D:
  assumes "rxk ic (Lit l) k (s, c) = Some res"
  shows "\<exists>x s'. s = x @ s' \<and> lit_eq ic l x \<and> k (s', c) = Some res"
proof -
  from assms have p: "lit_prefix ic l s" and k: "k (drop (length l) s, c) = Some res"
    by (simp_all split: if_splits)
  from lit_prefix_split [OF p] obtain x s' where "s = x @ s'" "lit_eq ic l x"
    by blast
  with k show ?thesis
    by (auto simp: lit_eq_def)
qed

lemma lit_I: "lit_eq ic l x \<Longrightarrow> rxk ic (Lit l) k (x @ s', c) = k (s', c)"
  by (simp add: lit_eq_prefix) (simp add: lit_eq_def)

lemma star_g_D:
  "star_g P k s = Some res \<Longrightarrow> \<exists>x s'. s = x @ s' \<and> list_all P x \<and> k s' = Some res"
proof (induction s)
  case Nil
  then show ?case by simp
next
  case (Cons a s)
  show ?case
  proof (cases "P a \<and> star_g P k s \<noteq> None")
    case True
    with Cons.prems have "star_g P k s = Some res"
      by (auto split: option.splits)
    from Cons.IH [OF this] obtain x s' where "s = x @ s'" "list_all P x" "k s' = Some res"
      by blast
    with True have "a # s = (a # x) @ s' \<and> list_all P (a # x) \<and> k s' = Some res"
      by simp
    then show ?thesis by blast
  next
    case False
    with Cons.prems have "k (a # s) = Some res"
      by (auto split: option.splits if_splits)
    then have "a # s = [] @ (a # s) \<and> list_all P [] \<and> k (a # s) = Some res"
      by simp
    then show ?thesis by blast
  qed
qed

lemma star_g_I:
  "list_all P x \<Longrightarrow> k s' \<noteq> None \<Longrightarrow> star_g P k (x @ s') \<noteq> None"
proof (induction x)
  case Nil
  then show ?case by (cases s') (auto split: option.splits)
next
  case (Cons a x)
  then show ?case by (auto split: option.splits)
qed

lemma star_D:
  "rxk ic (Star P) k (s, c) = Some res \<Longrightarrow>
   \<exists>x s'. s = x @ s' \<and> list_all P x \<and> k (s', c) = Some res"
  using star_g_D [of P "\<lambda>s. k (s, c)" s res] by simp

lemma star_I:
  "list_all P x \<Longrightarrow> k (s', c) \<noteq> None \<Longrightarrow> rxk ic (Star P) k (x @ s', c) \<noteq> None"
  using star_g_I [of P x "\<lambda>s. k (s, c)" s'] by simp

lemma plus_D:
  assumes "rxk ic (plus P) k (s, c) = Some res"
  shows "\<exists>x s'. s = x @ s' \<and> x \<noteq> [] \<and> list_all P x \<and> k (s', c) = Some res"
proof -
  from assms obtain a t where s: "s = a # t" and a: "P a"
    and "rxk ic (Star P) k (t, c) = Some res"
    by (auto simp: plus_def split: list.splits if_splits)
  from star_D [OF this(3)] obtain x s' where "t = x @ s'" "list_all P x" "k (s', c) = Some res"
    by blast
  with s a have "s = (a # x) @ s' \<and> a # x \<noteq> [] \<and> list_all P (a # x) \<and> k (s', c) = Some res"
    by simp
  then show ?thesis by blast
qed

lemma plus_I:
  assumes "x \<noteq> []" and "list_all P x" and "k (s', c) \<noteq> None"
  shows "rxk ic (plus P) k (x @ s', c) \<noteq> None"
proof -
  from assms(1) obtain a t where x: "x = a # t"
    by (cases x) auto
  with assms(2) have "P a" "list_all P t"
    by simp_all
  with star_I [where P = P and x = t and k = k and s' = s' and c = c and ic = ic] assms(3) x
  show ?thesis
    by (simp add: plus_def)
qed

lemma grp_D:
  fixes k :: "mstate \<Rightarrow> 'r option"
  assumes "rxk ic (Grp r) k (s, c) = Some res"
    and "\<And>k' :: mstate \<Rightarrow> 'r option. rxk ic r k' (s, c) = Some res \<Longrightarrow>
           \<exists>x s'. s = x @ s' \<and> Q x \<and> k' (s', c) = Some res"
  shows "\<exists>x s'. s = x @ s' \<and> Q x \<and> k (s', Some x) = Some res"
proof -
  let ?k = "\<lambda>st'. k (fst st', Some (take (length s - length (fst st')) s))"
  from assms(1) have "rxk ic r ?k (s, c) = Some res"
    by simp
  from assms(2) [OF this] obtain x s' where "s = x @ s'" "Q x" "?k (s', c) = Some res"
    by blast
  then have "s = x @ s' \<and> Q x \<and> k (s', Some x) = Some res"
    by simp
  then show ?thesis by blast
qed

lemma grp_I:
  fixes k :: "mstate \<Rightarrow> 'r option"
  assumes "\<And>k' :: mstate \<Rightarrow> 'r option. k' (s', c) \<noteq> None \<Longrightarrow> rxk ic r k' (x @ s', c) \<noteq> None"
    and "k (s', Some x) \<noteq> None"
  shows "rxk ic (Grp r) k (x @ s', c) \<noteq> None"
  using assms(1) [of "\<lambda>st'. k (fst st', Some (take (length (x @ s') - length (fst st')) (x @ s')))"]
    assms(2)
  by simp

lemma cat_simps: "cat [] = Eps" "cat (r # rs) = Seq r (cat rs)"
  by (simp_all add: cat_def)

text \<open>The leftmost start position with a match decides.\<close>

lemma rx_match_first:
  assumes "rxk ic r Some (drop j s, None) \<noteq> None" and "j \<le> length s"
  shows "\<exists>i \<le> j. \<exists>m. rx_match ic r s = Some m \<and> rxk ic r Some (drop i s, None) = Some m"
  using assms
proof (induction s arbitrary: j)
  case Nil
  then show ?case by auto
next
  case (Cons a s)
  show ?case
  proof (cases "rxk ic r Some (a # s, None)")
    case (Some m)
    then have "rx_match ic r (a # s) = Some m \<and> rxk ic r Some (drop 0 (a # s), None) = Some m"
      by simp
    then show ?thesis by blast
  next
    case None
    with Cons.prems obtain j' where j: "j = Suc j'"
      by (cases j) auto
    with Cons.prems have "rxk ic r Some (drop j' s, None) \<noteq> None" "j' \<le> length s"
      by simp_all
    from Cons.IH [OF this] obtain i m where "i \<le> j'" "rx_match ic r s = Some m"
      "rxk ic r Some (drop i s, None) = Some m"
      by blast
    with None j have "Suc i \<le> j \<and> rx_match ic r (a # s) = Some m
        \<and> rxk ic r Some (drop (Suc i) (a # s), None) = Some m"
      by simp
    then show ?thesis by blast
  qed
qed

lemma rx_match_None:
  "(\<And>j. j \<le> length s \<Longrightarrow> rxk ic r Some (drop j s, None) = None) \<Longrightarrow> rx_match ic r s = None"
proof (induction s)
  case Nil
  then show ?case by simp
next
  case (Cons a s)
  have "rxk ic r Some (a # s, None) = None"
    using Cons.prems [of 0] by simp
  moreover have "rx_match ic r s = None"
  proof (rule Cons.IH)
    fix j assume "j \<le> length s"
    then show "rxk ic r Some (drop j s, None) = None"
      using Cons.prems [of "Suc j"] by simp
  qed
  ultimately show ?case by simp
qed

text \<open>Occurrences of a literal.\<close>

lemma positions_iff:
  "j \<in> set (positions ic l s) \<longleftrightarrow> j \<le> length s \<and> lit_prefix ic l (drop j s)"
proof (induction s arbitrary: j)
  case Nil
  then show ?case by auto
next
  case (Cons a s)
  show ?case
  proof (cases j)
    case 0
    then show ?thesis by auto
  next
    case (Suc j')
    then show ?thesis using Cons.IH [of j'] by auto
  qed
qed

lemma occurs_position:
  "lit_eq ic l x \<Longrightarrow> length p \<in> set (positions ic l (p @ x @ r))"
  by (simp add: positions_iff lit_eq_prefix)

text \<open>Two ways to cut a list.\<close>

lemma prefix_before:
  assumes "x @ y = a @ c # b" and "c \<notin> set x"
  shows "\<exists>a'. a = x @ a' \<and> y = a' @ c # b"
proof -
  from assms(1) consider u where "x = a @ u" "u @ y = c # b" | u where "x @ u = a" "y = u @ c # b"
    by (auto simp: append_eq_append_conv2)
  then show ?thesis
  proof cases
    case 1
    with assms(2) have "u = []"
      by (cases u) auto
    with 1 show ?thesis by auto
  next
    case 2
    then show ?thesis by auto
  qed
qed

lemma same_run:
  assumes "a @ c # b = a' @ c # b'" and "c \<notin> set a" and "c \<notin> set a'"
  shows "a = a' \<and> b = b'"
proof -
  from prefix_before [OF assms(1) assms(2)] obtain u where u: "a' = a @ u" "c # b = u @ c # b'"
    by blast
  with assms(3) have "u = []"
    by (cases u) auto
  with u show ?thesis by simp
qed


lemma quote_eq: \<open>lit_eq True (S ''"'') x \<Longrightarrow> x = [34]\<close>
  by (cases x; cases "tl x") (auto simp: lit_eq_def S_def same_def canon_def split: if_splits)

lemma same_gt: "same True p 62 \<Longrightarrow> p = 62"
  by (auto simp: same_def canon_def split: if_splits)

lemma lit_eq_no_gt: "lit_eq True l x \<Longrightarrow> 62 \<notin> set l \<Longrightarrow> 62 \<notin> set x"
  using lit_eq_set same_gt by blast

lemma no_gt:
  "lit_eq True anchor_open x \<Longrightarrow> 62 \<notin> set x"
  "lit_eq True button_id x \<Longrightarrow> 62 \<notin> set x"
  "lit_eq True href_open x \<Longrightarrow> 62 \<notin> set x"
  by (erule lit_eq_no_gt, simp add: anchor_open_def button_id_def href_open_def S_def)+

lemma list_all_not_gt: "list_all not_gt x \<longleftrightarrow> 62 \<notin> set x"
  by (induction x) (auto simp: not_gt_def)

lemma list_all_not_quote: "list_all not_quote x \<longleftrightarrow> 34 \<notin> set x"
  by (induction x) (auto simp: not_quote_def)

lemma regex1_shape:
  \<open>downloadLinkRegex1 =
     Seq (Lit anchor_open) (Seq (Star not_gt) (Seq (Lit button_id) (Seq (Star not_gt)
       (Seq (Lit href_open) (Seq (Grp (plus not_quote)) (Seq (Lit (S ''"'')) Eps))))))\<close>
  by (simp add: downloadLinkRegex1_def cat_simps anchor_open_def button_id_def href_open_def)

lemma rxk_Seq: "rxk ic (Seq a b) k st = rxk ic a (rxk ic b k) st"
  by simp

lemma rxk_Eps: "rxk ic Eps k = k"
  by (rule ext) simp

lemma lit_self: "rxk ic (Lit l) k (l @ s', c) = k (s', c)"
  by (rule lit_I [OF lit_eq_refl])

text \<open>What a match of pattern 1 looks like, and that such a text is matched.\<close>

lemma regex1_D:
  assumes "rxk True downloadLinkRegex1 Some (s, None) = Some res"
  shows "\<exists>x0 x1 x2 x3 x4 g rest.
           s = x0 @ x1 @ x2 @ x3 @ x4 @ g @ 34 # rest
           \<and> lit_eq True anchor_open x0 \<and> 62 \<notin> set x1 \<and> lit_eq True button_id x2
           \<and> 62 \<notin> set x3 \<and> lit_eq True href_open x4 \<and> g \<noteq> [] \<and> 34 \<notin> set g
           \<and> res = (rest, Some g)"
proof -
  define R5 where \<open>R5 = Seq (Lit (S ''"'')) Eps\<close>
  define R4 where "R4 = Seq (Grp (plus not_quote)) R5"
  define R3 where "R3 = Seq (Lit href_open) R4"
  define R2 where "R2 = Seq (Star not_gt) R3"
  define R1 where "R1 = Seq (Lit button_id) R2"
  define R0 where "R0 = Seq (Star not_gt) R1"
  have r: "downloadLinkRegex1 = Seq (Lit anchor_open) R0"
    by (simp add: regex1_shape R0_def R1_def R2_def R3_def R4_def R5_def)
  from assms have "rxk True (Lit anchor_open) (rxk True R0 Some) (s, None) = Some res"
    unfolding r rxk_Seq .
  from lit_D [OF this] obtain x0 s0 where 0: "s = x0 @ s0" "lit_eq True anchor_open x0"
    and "rxk True R0 Some (s0, None) = Some res"
    by blast
  then have "rxk True (Star not_gt) (rxk True R1 Some) (s0, None) = Some res"
    by (simp only: R0_def rxk_Seq)
  from star_D [OF this] obtain x1 s1 where 1: "s0 = x1 @ s1" "list_all not_gt x1"
    and "rxk True R1 Some (s1, None) = Some res"
    by blast
  then have "rxk True (Lit button_id) (rxk True R2 Some) (s1, None) = Some res"
    by (simp only: R1_def rxk_Seq)
  from lit_D [OF this] obtain x2 s2 where 2: "s1 = x2 @ s2" "lit_eq True button_id x2"
    and "rxk True R2 Some (s2, None) = Some res"
    by blast
  then have "rxk True (Star not_gt) (rxk True R3 Some) (s2, None) = Some res"
    by (simp only: R2_def rxk_Seq)
  from star_D [OF this] obtain x3 s3 where 3: "s2 = x3 @ s3" "list_all not_gt x3"
    and "rxk True R3 Some (s3, None) = Some res"
    by blast
  then have "rxk True (Lit href_open) (rxk True R4 Some) (s3, None) = Some res"
    by (simp only: R3_def rxk_Seq)
  from lit_D [OF this] obtain x4 s4 where 4: "s3 = x4 @ s4" "lit_eq True href_open x4"
    and "rxk True R4 Some (s4, None) = Some res"
    by blast
  then have "rxk True (Grp (plus not_quote)) (rxk True R5 Some) (s4, None) = Some res"
    by (simp only: R4_def rxk_Seq)
  then have "\<exists>x s'. s4 = x @ s' \<and> (x \<noteq> [] \<and> list_all not_quote x)
      \<and> rxk True R5 Some (s', Some x) = Some res"
  proof (rule grp_D)
    fix k' :: "mstate \<Rightarrow> mstate option"
    assume "rxk True (plus not_quote) k' (s4, None) = Some res"
    from plus_D [OF this]
    show "\<exists>x s'. s4 = x @ s' \<and> (x \<noteq> [] \<and> list_all not_quote x) \<and> k' (s', None) = Some res"
      by simp
  qed
  then obtain g s5 where 5: "s4 = g @ s5" "g \<noteq> []" "list_all not_quote g"
    and "rxk True R5 Some (s5, Some g) = Some res"
    by blast
  then have \<open>rxk True (Lit (S ''"'')) Some (s5, Some g) = Some res\<close>
    by (simp only: R5_def rxk_Seq rxk_Eps)
  from lit_D [OF this] obtain x6 rest where 6: "s5 = x6 @ rest" \<open>lit_eq True (S ''"'') x6\<close>
    and "Some (rest, Some g) = Some res"
    by blast
  with quote_eq have "s5 = 34 # rest" "res = (rest, Some g)"
    by auto
  with 0 1 2 3 4 5 have "s = x0 @ x1 @ x2 @ x3 @ x4 @ g @ 34 # rest
           \<and> lit_eq True anchor_open x0 \<and> 62 \<notin> set x1 \<and> lit_eq True button_id x2
           \<and> 62 \<notin> set x3 \<and> lit_eq True href_open x4 \<and> g \<noteq> [] \<and> 34 \<notin> set g
           \<and> res = (rest, Some g)"
    by (simp add: list_all_not_gt list_all_not_quote)
  then show ?thesis
    by blast
qed

lemma regex1_I:
  assumes "62 \<notin> set x1" and "62 \<notin> set x3" and "g \<noteq> []" and "34 \<notin> set g"
  shows "rxk True downloadLinkRegex1 Some
           (anchor_open @ x1 @ button_id @ x3 @ href_open @ g @ 34 # rest, None) \<noteq> None"
proof -
  define R5 where \<open>R5 = Seq (Lit (S ''"'')) Eps\<close>
  define R4 where "R4 = Seq (Grp (plus not_quote)) R5"
  define R3 where "R3 = Seq (Lit href_open) R4"
  define R2 where "R2 = Seq (Star not_gt) R3"
  define R1 where "R1 = Seq (Lit button_id) R2"
  define R0 where "R0 = Seq (Star not_gt) R1"
  have r: "downloadLinkRegex1 = Seq (Lit anchor_open) R0"
    by (simp add: regex1_shape R0_def R1_def R2_def R3_def R4_def R5_def)
  have q: \<open>S ''"'' = [34]\<close>
    by (simp add: S_def)
  have "rxk True R5 Some ([34] @ rest, Some g) \<noteq> None"
    by (simp only: R5_def rxk_Seq rxk_Eps q lit_self) simp
  then have 5: "rxk True R5 Some (34 # rest, Some g) \<noteq> None"
    by simp
  have "rxk True (Grp (plus not_quote)) (rxk True R5 Some) (g @ 34 # rest, None) \<noteq> None"
  proof (rule grp_I)
    fix k' :: "mstate \<Rightarrow> mstate option"
    assume "k' (34 # rest, None) \<noteq> None"
    with assms(3,4) show "rxk True (plus not_quote) k' (g @ 34 # rest, None) \<noteq> None"
      by (simp add: plus_I list_all_not_quote)
  qed (rule 5)
  then have "rxk True R3 Some (href_open @ g @ 34 # rest, None) \<noteq> None"
    unfolding R3_def R4_def rxk_Seq lit_self .
  with assms(2)
  have "rxk True (Star not_gt) (rxk True R3 Some) (x3 @ href_open @ g @ 34 # rest, None) \<noteq> None"
    by (simp add: star_I list_all_not_gt del: rxk.simps)
  then have "rxk True R1 Some (button_id @ x3 @ href_open @ g @ 34 # rest, None) \<noteq> None"
    unfolding R1_def R2_def rxk_Seq lit_self .
  with assms(1)
  have "rxk True (Star not_gt) (rxk True R1 Some)
      (x1 @ button_id @ x3 @ href_open @ g @ 34 # rest, None) \<noteq> None"
    by (simp add: star_I list_all_not_gt del: rxk.simps)
  then show ?thesis
    unfolding r R0_def rxk_Seq lit_self .
qed


lemma lit_eq_length: "lit_eq ic l x \<Longrightarrow> length x = length l"
  by (simp add: lit_eq_def)

lemma group1_first:
  assumes "rxk ic r Some (drop j s, None) \<noteq> None" and "j \<le> length s"
    and "\<And>i res. i \<le> j \<Longrightarrow> rxk ic r Some (drop i s, None) = Some res \<Longrightarrow> snd res = Some X"
    and "X \<noteq> []"
  shows "group1 ic r s = Some X"
proof -
  from rx_match_first [OF assms(1,2)] obtain i m where "i \<le> j" "rx_match ic r s = Some m"
    "rxk ic r Some (drop i s, None) = Some m"
    by blast
  with assms(3) [of i m] assms(4) show ?thesis
    by (simp add: group1_def)
qed

lemma regroup: "drop j h = (x0 @ x1 @ x2) @ a \<Longrightarrow> h = (take j h @ x0 @ x1) @ x2 @ a"
  by (metis append.assoc append_take_drop_id)

lemma occurs_cut: "h = p @ x @ r \<Longrightarrow> lit_eq ic l x \<Longrightarrow> length p \<in> set (positions ic l h)"
  by (simp add: occurs_position)

lemma cut_same: "p1 @ r1 = p2 @ r2 \<Longrightarrow> length p1 = length p2 \<Longrightarrow> r1 = r2"
  by simp

lemma cut_literal: "x @ r1 = l @ r2 \<Longrightarrow> lit_eq ic l x \<Longrightarrow> r1 = r2"
  by (simp add: lit_eq_def)

lemma opt_D: "rxk ic (Opt r) k st = Some res \<Longrightarrow> rxk ic r k st = Some res \<or> k st = Some res"
  by (simp split: option.splits)

lemma opt_I: "rxk ic r k st \<noteq> None \<or> k st \<noteq> None \<Longrightarrow> rxk ic (Opt r) k st \<noteq> None"
  by (auto split: option.splits)

lemma same_quote: "same True p 34 \<Longrightarrow> p = 34"
  by (auto simp: same_def canon_def split: if_splits)

lemma lit_eq_no_quote: "lit_eq True l x \<Longrightarrow> 34 \<notin> set l \<Longrightarrow> 34 \<notin> set x"
  using lit_eq_set same_quote by blast

lemma white_not: "list_all white y \<Longrightarrow> 61 \<notin> set y \<and> 34 \<notin> set y \<and> 100 \<notin> set y \<and> 68 \<notin> set y"
  by (induction y) (auto simp: white_def)

text \<open>The text of a group \<^verbatim>\<open>(https?:\/\/[^"]+)\<close> holds no double quote.\<close>

lemma quoted_url_D:
  fixes k :: "mstate \<Rightarrow> 'r option"
  assumes "rxk True quoted_url k (s, c) = Some res"
  shows "\<exists>g s'. s = g @ s' \<and> 34 \<notin> set g \<and> k (s', Some g) = Some res"
  using assms unfolding quoted_url_def
proof (rule grp_D)
  fix k' :: "mstate \<Rightarrow> 'r option"
  define R2 where "R2 = Seq (plus not_quote) Eps"
  define R1 where "R1 = Seq (Lit (S ''://'')) R2"
  define R0 where "R0 = Seq (Opt (Lit (S ''s''))) R1"
  assume "rxk True (cat [Lit (S ''http''), Opt (Lit (S ''s'')), Lit (S ''://''), plus not_quote]) k' (s, c)
            = Some res"
  then have "rxk True (Lit (S ''http'')) (rxk True R0 k') (s, c) = Some res"
    unfolding cat_simps R0_def R1_def R2_def rxk_Seq .
  from lit_D [OF this] obtain x0 s0 where 0: "s = x0 @ s0" "lit_eq True (S ''http'') x0"
    and "rxk True R0 k' (s0, c) = Some res"
    by blast
  then have "rxk True (Opt (Lit (S ''s''))) (rxk True R1 k') (s0, c) = Some res"
    unfolding R0_def rxk_Seq by simp
  from opt_D [OF this]
  have "\<exists>x1 s1. s0 = x1 @ s1 \<and> 34 \<notin> set x1 \<and> rxk True R1 k' (s1, c) = Some res"
  proof
    assume "rxk True (Lit (S ''s'')) (rxk True R1 k') (s0, c) = Some res"
    from lit_D [OF this] obtain x1 s1 where "s0 = x1 @ s1" "lit_eq True (S ''s'') x1"
      "rxk True R1 k' (s1, c) = Some res"
      by blast
    moreover from this(2) have "34 \<notin> set x1"
      by (rule lit_eq_no_quote) (simp add: S_def)
    ultimately show ?thesis
      by blast
  next
    assume "rxk True R1 k' (s0, c) = Some res"
    then have "s0 = [] @ s0 \<and> 34 \<notin> set [] \<and> rxk True R1 k' (s0, c) = Some res"
      by simp
    then show ?thesis
      by blast
  qed
  then obtain x1 s1 where 1: "s0 = x1 @ s1" "34 \<notin> set x1" and "rxk True R1 k' (s1, c) = Some res"
    by blast
  then have "rxk True (Lit (S ''://'')) (rxk True R2 k') (s1, c) = Some res"
    unfolding R1_def rxk_Seq by simp
  from lit_D [OF this] obtain x2 s2 where 2: "s1 = x2 @ s2" "lit_eq True (S ''://'') x2"
    and "rxk True R2 k' (s2, c) = Some res"
    by blast
  then have "rxk True (plus not_quote) k' (s2, c) = Some res"
    unfolding R2_def rxk_Seq rxk_Eps by simp
  from plus_D [OF this] obtain y s3 where 3: "s2 = y @ s3" "list_all not_quote y"
    and k: "k' (s3, c) = Some res"
    by blast
  have "34 \<notin> set x0" "34 \<notin> set x2"
    using 0(2) 2(2) by (auto dest!: lit_eq_no_quote simp: S_def)
  with 0 1 2 3 k have "s = (x0 @ x1 @ x2 @ y) @ s3 \<and> 34 \<notin> set (x0 @ x1 @ x2 @ y)
      \<and> k' (s3, c) = Some res"
    by (simp add: list_all_not_quote)
  then show "\<exists>x s'. s = x @ s' \<and> 34 \<notin> set x \<and> k' (s', c) = Some res"
    by blast
qed

lemma quoted_url_I:
  fixes k :: "mstate \<Rightarrow> 'r option"
  assumes "X = S ''http://'' @ Y \<or> X = S ''https://'' @ Y" and "Y \<noteq> []" and "34 \<notin> set Y"
    and "k (s', Some X) \<noteq> None"
  shows "rxk True quoted_url k (X @ s', c) \<noteq> None"
  unfolding quoted_url_def
proof (rule grp_I)
  fix k' :: "mstate \<Rightarrow> 'r option"
  define R2 where "R2 = Seq (plus not_quote) Eps"
  define R1 where "R1 = Seq (Lit (S ''://'')) R2"
  assume "k' (s', c) \<noteq> None"
  with assms(2,3) have "rxk True (plus not_quote) k' (Y @ s', c) \<noteq> None"
    by (simp add: plus_I list_all_not_quote)
  then have 1: "rxk True R1 k' (S ''://'' @ Y @ s', c) \<noteq> None"
    unfolding R1_def R2_def rxk_Seq rxk_Eps lit_self .
  then have "rxk True (Lit (S ''s'')) (rxk True R1 k') (S ''s'' @ S ''://'' @ Y @ s', c) \<noteq> None"
    unfolding lit_self .
  then have 2: "rxk True (Opt (Lit (S ''s''))) (rxk True R1 k') (S ''s'' @ S ''://'' @ Y @ s', c) \<noteq> None"
    by (intro opt_I disjI1)
  from 1 have 3: "rxk True (Opt (Lit (S ''s''))) (rxk True R1 k') (S ''://'' @ Y @ s', c) \<noteq> None"
    by (intro opt_I disjI2)
  have "X @ s' = S ''http'' @ S ''://'' @ Y @ s' \<or> X @ s' = S ''http'' @ S ''s'' @ S ''://'' @ Y @ s'"
    using assms(1) by (auto simp: S_def)
  then show "rxk True (cat [Lit (S ''http''), Opt (Lit (S ''s'')), Lit (S ''://''), plus not_quote]) k'
      (X @ s', c) \<noteq> None"
  proof
    assume "X @ s' = S ''http'' @ S ''://'' @ Y @ s'"
    with 3 show ?thesis
      unfolding cat_simps rxk_Seq R1_def R2_def by (simp only: lit_self not_False_eq_True)
  next
    assume "X @ s' = S ''http'' @ S ''s'' @ S ''://'' @ Y @ s'"
    with 2 show ?thesis
      unfolding cat_simps rxk_Seq R1_def R2_def by (simp only: lit_self not_False_eq_True)
  qed
qed (use assms(4) in simp)


lemma one_unit:
  "lit_eq True (S ''='') x \<Longrightarrow> x = [61]"
  \<open>lit_eq True (S ''";'') x \<Longrightarrow> x = [34, 59]\<close>
  by (cases x; cases "tl x"; cases "tl (tl x)";
      auto simp: lit_eq_def S_def same_def canon_def split: if_splits)+

text \<open>What a match of pattern 2 looks like, and that such a text is matched.\<close>

lemma regex2_D:
  assumes "rxk True jsDownloadLinkRegex2 Some (s, None) = Some res"
  shows "\<exists>x0 y1 x2 y2 y3 g rest.
           s = x0 @ y1 @ x2 @ y2 @ 61 # y3 @ 34 # g @ 34 # 59 # rest
           \<and> lit_eq True (S ''var'') x0 \<and> y1 \<noteq> [] \<and> list_all white y1
           \<and> lit_eq True (S ''download_url'') x2 \<and> list_all white y2 \<and> list_all white y3
           \<and> 34 \<notin> set g \<and> res = (rest, Some g)"
proof -
  define R8 where \<open>R8 = Seq (Lit (S ''";'')) Eps\<close>
  define R7 where "R7 = Seq quoted_url R8"
  define R6 where \<open>R6 = Seq (Lit (S ''"'')) R7\<close>
  define R5 where "R5 = Seq (Star white) R6"
  define R4 where "R4 = Seq (Lit (S ''='')) R5"
  define R3 where "R3 = Seq (Star white) R4"
  define R2 where "R2 = Seq (Lit (S ''download_url'')) R3"
  define R1 where "R1 = Seq (plus white) R2"
  have r: "jsDownloadLinkRegex2 = Seq (Lit (S ''var'')) R1"
    by (simp add: jsDownloadLinkRegex2_def cat_simps R1_def R2_def R3_def R4_def R5_def R6_def
        R7_def R8_def)
  from assms have "rxk True (Lit (S ''var'')) (rxk True R1 Some) (s, None) = Some res"
    unfolding r rxk_Seq .
  from lit_D [OF this] obtain x0 s0 where 0: "s = x0 @ s0" "lit_eq True (S ''var'') x0"
    and "rxk True R1 Some (s0, None) = Some res"
    by blast
  then have "rxk True (plus white) (rxk True R2 Some) (s0, None) = Some res"
    unfolding R1_def rxk_Seq by simp
  from plus_D [OF this] obtain y1 s1 where 1: "s0 = y1 @ s1" "y1 \<noteq> []" "list_all white y1"
    and "rxk True R2 Some (s1, None) = Some res"
    by blast
  then have "rxk True (Lit (S ''download_url'')) (rxk True R3 Some) (s1, None) = Some res"
    unfolding R2_def rxk_Seq by simp
  from lit_D [OF this] obtain x2 s2 where 2: "s1 = x2 @ s2" "lit_eq True (S ''download_url'') x2"
    and "rxk True R3 Some (s2, None) = Some res"
    by blast
  then have "rxk True (Star white) (rxk True R4 Some) (s2, None) = Some res"
    unfolding R3_def rxk_Seq by simp
  from star_D [OF this] obtain y2 s3 where 3: "s2 = y2 @ s3" "list_all white y2"
    and "rxk True R4 Some (s3, None) = Some res"
    by blast
  then have "rxk True (Lit (S ''='')) (rxk True R5 Some) (s3, None) = Some res"
    unfolding R4_def rxk_Seq by simp
  from lit_D [OF this] obtain x3 s4 where 4: "s3 = x3 @ s4" "lit_eq True (S ''='') x3"
    and "rxk True R5 Some (s4, None) = Some res"
    by blast
  then have "rxk True (Star white) (rxk True R6 Some) (s4, None) = Some res"
    unfolding R5_def rxk_Seq by simp
  from star_D [OF this] obtain y3 s5 where 5: "s4 = y3 @ s5" "list_all white y3"
    and "rxk True R6 Some (s5, None) = Some res"
    by blast
  then have \<open>rxk True (Lit (S ''"'')) (rxk True R7 Some) (s5, None) = Some res\<close>
    unfolding R6_def rxk_Seq by simp
  from lit_D [OF this] obtain x4 s6 where 6: "s5 = x4 @ s6" \<open>lit_eq True (S ''"'') x4\<close>
    and "rxk True R7 Some (s6, None) = Some res"
    by blast
  then have "rxk True quoted_url (rxk True R8 Some) (s6, None) = Some res"
    unfolding R7_def rxk_Seq by simp
  from quoted_url_D [OF this] obtain g s7 where 7: "s6 = g @ s7" "34 \<notin> set g"
    and "rxk True R8 Some (s7, Some g) = Some res"
    by blast
  then have \<open>rxk True (Lit (S ''";'')) Some (s7, Some g) = Some res\<close>
    unfolding R8_def rxk_Seq rxk_Eps by simp
  from lit_D [OF this] obtain x5 rest where 8: "s7 = x5 @ rest" \<open>lit_eq True (S ''";'') x5\<close>
    and "Some (rest, Some g) = Some res"
    by blast
  with 4 6 have "x3 = [61]" "x4 = [34]" "x5 = [34, 59]" "res = (rest, Some g)"
    by (auto simp: one_unit quote_eq)
  with 0 1 2 3 4 5 6 7 8 have "s = x0 @ y1 @ x2 @ y2 @ 61 # y3 @ 34 # g @ 34 # 59 # rest
           \<and> lit_eq True (S ''var'') x0 \<and> y1 \<noteq> [] \<and> list_all white y1
           \<and> lit_eq True (S ''download_url'') x2 \<and> list_all white y2 \<and> list_all white y3
           \<and> 34 \<notin> set g \<and> res = (rest, Some g)"
    by simp
  then show ?thesis
    by blast
qed

lemma regex2_I:
  assumes "y1 \<noteq> []" and "list_all white y1" and "list_all white y2" and "list_all white y3"
    and "X = S ''http://'' @ Y \<or> X = S ''https://'' @ Y" and "Y \<noteq> []" and "34 \<notin> set Y"
  shows \<open>rxk True jsDownloadLinkRegex2 Some
           (S ''var'' @ y1 @ S ''download_url'' @ y2 @ S ''='' @ y3 @ S ''"'' @ X @ S ''";'' @ rest, None)
         \<noteq> None\<close>
proof -
  define R8 where \<open>R8 = Seq (Lit (S ''";'')) Eps\<close>
  define R7 where "R7 = Seq quoted_url R8"
  define R6 where \<open>R6 = Seq (Lit (S ''"'')) R7\<close>
  define R5 where "R5 = Seq (Star white) R6"
  define R4 where "R4 = Seq (Lit (S ''='')) R5"
  define R3 where "R3 = Seq (Star white) R4"
  define R2 where "R2 = Seq (Lit (S ''download_url'')) R3"
  define R1 where "R1 = Seq (plus white) R2"
  have r: "jsDownloadLinkRegex2 = Seq (Lit (S ''var'')) R1"
    by (simp add: jsDownloadLinkRegex2_def cat_simps R1_def R2_def R3_def R4_def R5_def R6_def
        R7_def R8_def)
  have \<open>rxk True R8 Some (S ''";'' @ rest, Some X) \<noteq> None\<close>
    unfolding R8_def rxk_Seq rxk_Eps lit_self by simp
  with assms(5,6,7) have \<open>rxk True quoted_url (rxk True R8 Some) (X @ S ''";'' @ rest, None) \<noteq> None\<close>
    by (rule quoted_url_I)
  then have \<open>rxk True R6 Some (S ''"'' @ X @ S ''";'' @ rest, None) \<noteq> None\<close>
    unfolding R6_def R7_def rxk_Seq lit_self .
  with assms(4)
  have \<open>rxk True (Star white) (rxk True R6 Some) (y3 @ S ''"'' @ X @ S ''";'' @ rest, None) \<noteq> None\<close>
    by (simp add: star_I del: rxk.simps)
  then have \<open>rxk True R4 Some (S ''='' @ y3 @ S ''"'' @ X @ S ''";'' @ rest, None) \<noteq> None\<close>
    unfolding R4_def R5_def rxk_Seq lit_self .
  with assms(3)
  have \<open>rxk True (Star white) (rxk True R4 Some)
          (y2 @ S ''='' @ y3 @ S ''"'' @ X @ S ''";'' @ rest, None) \<noteq> None\<close>
    by (simp add: star_I del: rxk.simps)
  then have \<open>rxk True R2 Some
          (S ''download_url'' @ y2 @ S ''='' @ y3 @ S ''"'' @ X @ S ''";'' @ rest, None) \<noteq> None\<close>
    unfolding R2_def R3_def rxk_Seq lit_self .
  with assms(1,2)
  have \<open>rxk True (plus white) (rxk True R2 Some)
          (y1 @ S ''download_url'' @ y2 @ S ''='' @ y3 @ S ''"'' @ X @ S ''";'' @ rest, None) \<noteq> None\<close>
    by (simp add: plus_I del: rxk.simps)
  then show ?thesis
    unfolding r R1_def rxk_Seq lit_self .
qed


lemma cut_longer:
  assumes "a @ b = c @ d" and "length c \<le> length a"
  shows "\<exists>t. a = c @ t \<and> t @ b = d"
proof -
  from assms(1) consider t where "a = c @ t" "t @ b = d" | t where "a @ t = c" "b = t @ d"
    by (auto simp: append_eq_append_conv2)
  then show ?thesis
  proof cases
    case 1
    then show ?thesis by blast
  next
    case 2
    with assms(2) have "t = []"
      by (cases t) auto
    with 2 show ?thesis by auto
  qed
qed

lemma regroup2: "drop j h = x0 @ x1 @ x2 @ a \<Longrightarrow> h = (take j h @ x0 @ x1) @ x2 @ a"
  by (metis append.assoc append_take_drop_id)

text \<open>Pattern 1 needs the text \<^verbatim>\<open>id="download-button"\<close>.\<close>

lemma regex1_needs_button:
  assumes "positions True button_id html = []"
  shows "group1 True downloadLinkRegex1 html = None"
proof -
  have "rx_match True downloadLinkRegex1 html = None"
  proof (rule rx_match_None)
    fix j
    show "rxk True downloadLinkRegex1 Some (drop j html, None) = None"
    proof (rule ccontr)
      assume "rxk True downloadLinkRegex1 Some (drop j html, None) \<noteq> None"
      then obtain res where "rxk True downloadLinkRegex1 Some (drop j html, None) = Some res"
        by blast
      from regex1_D [OF this] obtain x0 x1 x2 a
        where "drop j html = x0 @ x1 @ x2 @ a" and "lit_eq True button_id x2"
        by blast
      from occurs_cut [OF regroup2 [OF this(1)] this(2)] assms show False
        by simp
    qed
  qed
  then show ?thesis
    by (simp add: group1_def)
qed

lemmas rx_eval = extract_link_def group1_def downloadLinkRegex1_def jsDownloadLinkRegex2_def
  dlLinkRegex3_def directLinkInScriptRegex_def quoted_url_def cat_def alts_def plus_def same_def
  canon_def not_gt_def not_quote_def white_def any_unit_def url_unit_def file_extensions_def S_def

section \<open>The claims\<close>

text \<open>
  C1, as stated, fails: pattern 1 wants \<^verbatim>\<open>id="download-button"\<close> before \<^verbatim>\<open>href="\<close> inside
  the tag, and its greedy \<^verbatim>\<open>[^>]*\<close> takes the last \<^verbatim>\<open>href="\<close> before the tag's \<^verbatim>\<open>>\<close>. For the
  anchor \<^verbatim>\<open><a href="https://download123.mediafire.com/xyz/video.mp4" id="download-button">\<close>,
  which carries the id and an href, the extractor returns nothing. For
  \<^verbatim>\<open><a id="download-button" href="https://download123.mediafire.com/xyz/video.mp4" data-href="https://example.com/other.zip">\<close>
  it returns the value of \<^verbatim>\<open>data-href\<close>, not the href. For
  \<^verbatim>\<open><a id="download-button" href="https://download123.mediafire.com/?href=">click "here"</a>\<close>
  it returns the text \<^verbatim>\<open>>click \<close> that follows the tag.
\<close>

theorem anchor_counterexample:
  "extract_link html_href_first = None
   \<and> extract_link html_two_hrefs = Some (S ''https://example.com/other.zip'')
   \<and> extract_link html_href_suffix = Some (S ''>click '')"
  by (simp add: html_href_first_def html_two_hrefs_def html_href_suffix_def rx_eval)

text \<open>
  C1, amended. Let the text hold a tag \<^verbatim>\<open><a u id="download-button" v href="X" w>\<close> in which
  the id precedes the href, \<open>u\<close> and \<open>v\<close> hold no \<^verbatim>\<open>>\<close>, and \<open>X\<close> is not empty and holds no
  double quote. If \<^verbatim>\<open>id="download-button"\<close> (in any letter case) occurs nowhere else from the
  start of the text to the \<^verbatim>\<open>>\<close> that ends the tag, and \<^verbatim>\<open>href="\<close> occurs only once between the
  id and that \<^verbatim>\<open>>\<close>, then the extractor returns \<open>X\<close>, whatever patterns 2 to 4 would match:
  the first match in priority order wins.
\<close>

theorem anchor_href_extracted:
  assumes html: "html = pre @ anchor_open @ u @ button_id @ v @ href_open @ X @ [34] @ w @ [62] @ post"
    and u: "62 \<notin> set u" and v: "62 \<notin> set v" and X: "X \<noteq> []" "34 \<notin> set X"
    and one_id: "positions True button_id
                   (pre @ anchor_open @ u @ button_id @ v @ href_open @ X @ [34] @ w)
                 = [length (pre @ anchor_open @ u)]"
    and one_href: "positions True href_open (v @ href_open @ X @ [34] @ w) = [length v]"
  shows "extract_link html = Some X"
proof -
  define T where "T = v @ href_open @ X @ [34] @ w"
  define H where "H = pre @ anchor_open @ u @ button_id @ T"
  have html': "html = H @ 62 # post"
    by (simp add: html H_def T_def)
  have H': "H = (pre @ anchor_open @ u) @ button_id @ T"
    by (simp add: H_def)
  have T': "T = v @ href_open @ (X @ [34] @ w)"
    by (simp add: T_def)
  have one_id': "positions True button_id H = [length (pre @ anchor_open @ u)]"
    unfolding H_def T_def by (rule one_id)
  have one_href': "positions True href_open T = [length v]"
    unfolding T_def by (rule one_href)
  have sound: "snd res = Some X"
    if m: "rxk True downloadLinkRegex1 Some (drop j html, None) = Some res" and j: "j \<le> length pre"
    for j res
  proof -
    from regex1_D [OF m] obtain x0 x1 x2 x3 x4 g rest
      where d: "drop j html = x0 @ x1 @ x2 @ x3 @ x4 @ g @ 34 # rest"
        and x0: "lit_eq True anchor_open x0" and x1: "62 \<notin> set x1"
        and x2: "lit_eq True button_id x2" and x3: "62 \<notin> set x3"
        and x4: "lit_eq True href_open x4" and g: "34 \<notin> set g" and res: "res = (rest, Some g)"
      by blast
    have "j \<le> length H"
      using j by (simp add: H_def)
    then have "drop j html = drop j H @ 62 # post"
      by (simp add: html')
    with d have 1: "(x0 @ x1 @ x2) @ (x3 @ x4 @ g @ 34 # rest) = drop j H @ 62 # post"
      by simp
    have 2: "62 \<notin> set (x0 @ x1 @ x2)"
      using x0 x1 x2 by (simp add: no_gt)
    from prefix_before [OF 1 2] obtain a where a: "drop j H = (x0 @ x1 @ x2) @ a"
      and a': "x3 @ x4 @ g @ 34 # rest = a @ 62 # post"
      by blast
    note Hj = regroup [OF a]
    from occurs_cut [OF Hj x2]
    have len: "length (take j H @ x0 @ x1) = length (pre @ anchor_open @ u)"
      unfolding one_id' by simp
    from trans [OF Hj [symmetric] H']
    have "(take j H @ x0 @ x1) @ (x2 @ a) = (pre @ anchor_open @ u) @ (button_id @ T)" .
    from cut_same [OF this len] have "x2 @ a = button_id @ T" .
    from cut_literal [OF this x2] have "a = T" .
    with a' have 3: "(x3 @ x4) @ (g @ 34 # rest) = T @ 62 # post"
      by simp
    have 4: "62 \<notin> set (x3 @ x4)"
      using x3 x4 by (simp add: no_gt)
    from prefix_before [OF 3 4] obtain b where b: "T = (x3 @ x4) @ b"
      and b': "g @ 34 # rest = b @ 62 # post"
      by blast
    from b have Tb: "T = x3 @ x4 @ b"
      by simp
    from occurs_cut [OF Tb x4] have len3: "length x3 = length v"
      unfolding one_href' by simp
    from trans [OF Tb [symmetric] T']
    have "x3 @ (x4 @ b) = v @ (href_open @ (X @ [34] @ w))" .
    from cut_same [OF this len3] have "x4 @ b = href_open @ (X @ [34] @ w)" .
    from cut_literal [OF this x4] have "b = X @ [34] @ w" .
    with b' have "g @ 34 # rest = X @ 34 # (w @ 62 # post)"
      by simp
    from same_run [OF this g X(2)] res show ?thesis
      by simp
  qed
  have "drop (length pre) html = anchor_open @ u @ button_id @ v @ href_open @ X @ 34 # (w @ [62] @ post)"
    by (simp add: html)
  with regex1_I [OF u v X]
  have "rxk True downloadLinkRegex1 Some (drop (length pre) html, None) \<noteq> None"
    by simp
  then have "group1 True downloadLinkRegex1 html = Some X"
  proof (rule group1_first)
    show "length pre \<le> length html"
      by (simp add: html)
    show "X \<noteq> []"
      by fact
    show "snd res = Some X"
      if "i \<le> length pre" and "rxk True downloadLinkRegex1 Some (drop i html, None) = Some res"
      for i res
      using that(2,1) by (rule sound)
  qed
  then show ?thesis
    by (simp add: extract_link_def)
qed

theorem anchor_href_extracted_witness:
  "extract_link html_both = Some url_video
   \<and> group1 True jsDownloadLinkRegex2 html_both = Some (S ''https://example.com/other.zip'')"
proof -
  have "extract_link html_both = Some url_video"
  proof (rule anchor_href_extracted [where pre = "S ''<div>''" and u = \<open>S '' class="btn" ''\<close>
        and v = "S '' ''" and w = \<open>S '' rel="nofollow"''\<close>
        and post = \<open>S ''Download</a><script>var download_url = "https://example.com/other.zip";</script></div>''\<close>])
  qed (simp_all add: html_both_def url_video_def anchor_open_def button_id_def href_open_def
      S_def same_def canon_def)
  moreover have "group1 True jsDownloadLinkRegex2 html_both = Some (S ''https://example.com/other.zip'')"
    by (simp add: html_both_def rx_eval)
  ultimately show ?thesis
    by simp
qed

text \<open>
  C2. File name of a relay. When the upstream file response carries
  \<^verbatim>\<open>Content-Disposition: attachment; filename="report.pdf"\<close>, the relay succeeds and names
  the file \<^verbatim>\<open>report.pdf\<close>. When it carries no \<^verbatim>\<open>Content-Disposition\<close> and the path of the
  source link is \<^verbatim>\<open>/file/abc123/My+File/file\<close>, the name is \<^verbatim>\<open>My File\<close> (plus signs read as
  spaces) followed by a dot and the extension that the table gives for the upstream
  \<^verbatim>\<open>Content-Type\<close> (its part before the first semicolon), whenever the table has one.
\<close>

theorem filename_inference:
  \<open>(headers_get (S ''Content-Disposition'') (up_headers f)
       = Some (S ''attachment; filename="report.pdf"'') \<longrightarrow>
     (\<exists>r. relay P link f = Inr r
        \<and> headers_get (S ''Content-Disposition'') (r_headers r)
            = Some (S ''attachment; filename="report.pdf"'')))
   \<and> (headers_get (S ''Content-Disposition'') (up_headers f) = None
       \<and> url_pathname P link = Inr (S ''/file/abc123/My+File/file'')
       \<and> headers_get (S ''Content-Type'') (up_headers f) = Some ct
       \<and> split 59 ct = mime # rest \<and> map_of extMap mime = Some ext \<longrightarrow>
     compute_filename P link (up_headers f) (base_headers f) = Inr (S ''My File.'' @ ext)
     \<and> (\<exists>r. relay P link f = Inr r
        \<and> headers_get (S ''Content-Disposition'') (r_headers r)
            = Some (S ''attachment; filename="My File.'' @ ext @ S ''"'')))\<close>
proof (intro conjI impI)
  assume h: \<open>headers_get (S ''Content-Disposition'') (up_headers f)
       = Some (S ''attachment; filename="report.pdf"'')\<close>
  have "compute_filename P link (up_headers f) (base_headers f) = Inr (S ''report.pdf'')"
    by (simp add: compute_filename_def disposition_report [OF h] downloaded_file_def S_def)
  from relay_disposition [OF this]
  show \<open>\<exists>r. relay P link f = Inr r
        \<and> headers_get (S ''Content-Disposition'') (r_headers r)
            = Some (S ''attachment; filename="report.pdf"'')\<close>
    by (auto simp: S_def)
next
  assume h: "headers_get (S ''Content-Disposition'') (up_headers f) = None
       \<and> url_pathname P link = Inr (S ''/file/abc123/My+File/file'')
       \<and> headers_get (S ''Content-Type'') (up_headers f) = Some ct
       \<and> split 59 ct = mime # rest \<and> map_of extMap mime = Some ext"
  then have "ct \<noteq> []"
    by (auto simp: extMap_def S_def)
  with h have ct: "headers_get (S ''Content-Type'') (base_headers f) = Some ct"
    by (simp add: base_content_type)
  have "46 \<notin> set (S ''My File'')"
    by (simp add: S_def)
  from add_extension_mapped [OF this ct] h
  have "add_extension (S ''My File'') (base_headers f) = S ''My File'' @ [46] @ ext"
    by (simp add: my_file_no_extension)
  with h show name: "compute_filename P link (up_headers f) (base_headers f) = Inr (S ''My File.'' @ ext)"
    by (simp add: compute_filename_def disposition_filename_def link_filename_my_file S_def)
  from relay_disposition [OF name]
  show \<open>\<exists>r. relay P link f = Inr r
        \<and> headers_get (S ''Content-Disposition'') (r_headers r)
            = Some (S ''attachment; filename="My File.'' @ ext @ S ''"'')\<close>
    by (auto simp: S_def)
qed

theorem filename_inference_witness:
  \<open>(\<exists>r. relay (site (page_of html_anchor) file_video) link_my_file
            (file_named (S ''attachment; filename="report.pdf"'') (S ''application/pdf'')) = Inr r
        \<and> headers_get (S ''Content-Disposition'') (r_headers r)
            = Some (S ''attachment; filename="report.pdf"''))
   \<and> compute_filename (site (page_of html_anchor) file_video) link_my_file
        (up_headers file_video) (base_headers file_video) = Inr (S ''My File.mp4'')
   \<and> (\<exists>r. relay (site (page_of html_anchor) file_video) link_my_file file_video = Inr r
        \<and> headers_get (S ''Content-Disposition'') (r_headers r)
            = Some (S ''attachment; filename="My File.mp4"''))\<close>
  using filename_inference [where f = "file_named (S ''attachment; filename=\"report.pdf\"'') (S ''application/pdf'')"
      and P = "site (page_of html_anchor) file_video" and link = link_my_file, THEN conjunct1]
    filename_inference [where f = file_video and P = "site (page_of html_anchor) file_video"
      and link = link_my_file and ct = "S ''video/mp4''" and mime = "S ''video/mp4''" and rest = "[]"
      and ext = "S ''mp4''", THEN conjunct2]
  by (simp add: file_named_headers file_video_headers pathname_my_file mime_mp4) (simp add: S_def)

text \<open>
  C3. Every response of the handler carries the full CORS header set
  (\<^verbatim>\<open>Access-Control-Allow-Origin: *\<close>, \<^verbatim>\<open>Access-Control-Allow-Methods: GET, HEAD, OPTIONS\<close>,
  \<^verbatim>\<open>Access-Control-Allow-Headers: Content-Type\<close>, \<^verbatim>\<open>Access-Control-Max-Age: 86400\<close>): the
  preflight response, every JSON error response and every relayed response, for every
  request and every behaviour of the network and the URL parser.
\<close>

theorem cors_on_every_response: "has_cors (r_headers (fst (fetch P request)))"
  by (auto simp: fetch_def has_cors_error has_cors_cors has_cors_pipeline split: option.splits)

theorem cors_on_every_response_witness:
  "has_cors (r_headers (fst (fetch (site (page_of html_anchor) file_video) (request_for ''GET'' None))))"
  by (rule cors_on_every_response)

text \<open>
  C4. The code does not do what the claim says: \<^verbatim>\<open>decodeURIComponent\<close> on the name found in
  \<^verbatim>\<open>Content-Disposition\<close> (line 168) stands outside the inner \<^verbatim>\<open>try\<close>, so a malformed
  escape there reaches the outer \<^verbatim>\<open>catch\<close>. With the upstream header
  \<^verbatim>\<open>Content-Disposition: attachment; filename="100%.pdf"\<close> the request ends in the 500 error
  response, after both fetches succeeded. The same malformed escape in the path of the
  source link (line 179, inside the inner \<^verbatim>\<open>try\<close>) is swallowed: the response is 200 with
  the default name.
\<close>

theorem malformed_disposition_fails_request:
  \<open>fetch (site (page_of html_anchor)
            (file_named (S ''attachment; filename="100%.pdf"'') (S ''application/pdf'')))
      (request_for ''GET'' (Some link_video))
    = (\<lparr>r_status = 500,
        r_headers = cors (headers_set (S ''Content-Type'') (S ''application/json'') Map.empty),
        r_body = Json (S ''Error interno del servidor al procesar la solicitud: URI malformed'')
                   link_video\<rparr>,
       [page_call link_video, file_call (request_for ''GET'' (Some link_video)) url_video])
   \<and> r_status (fst (fetch (site (page_of html_anchor) file_video)
        (request_for ''GET'' (Some link_percent)))) = 200
   \<and> headers_get (S ''Content-Disposition'')
        (r_headers (fst (fetch (site (page_of html_anchor) file_video)
           (request_for ''GET'' (Some link_percent)))))
      = Some (S ''attachment; filename="downloaded_file.mp4"'')\<close>
proof -
  let ?f = \<open>file_named (S ''attachment; filename="100%.pdf"'') (S ''application/pdf'')\<close>
  have "relay (site (page_of html_anchor) ?f) link_video ?f = Inl URIError"
    by (simp add: relay_def compute_filename_def disposition_named)
  then have bad: "fetch (site (page_of html_anchor) ?f) (request_for ''GET'' (Some link_video))
    = (caught URIError link_video,
       [page_call link_video, file_call (request_for ''GET'' (Some link_video)) url_video])"
    using fetch_site [of "''GET''" ?f link_video, OF _ ok_examples(3) link_video_valid]
    by (simp add: S_def)
  have "link_filename (site (page_of html_anchor) file_video) link_percent = downloaded_file"
    by (simp add: link_filename_def site_def simple_pathname_def link_percent_def Let_def
        escape_at_def hex_digit_def S_def)
  then have "compute_filename (site (page_of html_anchor) file_video) link_percent
      (up_headers file_video) (base_headers file_video) = Inr (downloaded_file @ [46] @ S ''mp4'')"
    using add_extension_mapped [where name = downloaded_file and hs = "base_headers file_video"
        and ct = "S ''video/mp4''" and mime = "S ''video/mp4''" and rest = "[]" and ext = "S ''mp4''"]
    by (simp add: compute_filename_def disposition_filename_def file_video_headers mime_mp4
        base_type_video S_facts)
  moreover have "up_status file_video = 200" and "link_video \<noteq> []"
    by (simp_all add: file_video_def link_video_def S_def)
  ultimately show ?thesis
    using fetch_site_named [OF _ ok_examples(2) links_valid(2)] bad
    by (simp add: caught_def createErrorResponse_def msg_internal_def downloaded_file_def S_def)
qed

text \<open>
  C5, as stated, fails: pattern 2 wants the keyword \<^verbatim>\<open>var\<close> and white space before
  \<^verbatim>\<open>download_url\<close>, and a semicolon right after the closing quote. The text
  \<^verbatim>\<open><script>download_url = "https://download123.mediafire.com/xyz/archive";</script>\<close> has no
  download-button anchor and holds the assignment, and the extractor returns nothing.
\<close>

theorem assignment_counterexample: "extract_link html_no_var = None"
  by (simp add: html_no_var_def rx_eval)

text \<open>
  C5, amended. Let the text hold no \<^verbatim>\<open>id="download-button"\<close> (in any letter case) and hold
  \<^verbatim>\<open>var download_url = "X";\<close>: the keyword \<^verbatim>\<open>var\<close>, white space, \<^verbatim>\<open>download_url\<close>, optional
  white space around \<^verbatim>\<open>=\<close>, and \<open>X\<close> in double quotes followed at once by a semicolon,
  where \<open>X\<close> is \<^verbatim>\<open>http://\<close> or \<^verbatim>\<open>https://\<close> and a non-empty rest with no double quote. If
  this is the first occurrence of \<^verbatim>\<open>download_url\<close> in the text, the extractor returns \<open>X\<close>.
\<close>

theorem assignment_extracted:
  assumes html: \<open>html = pre @ S ''var'' @ w1 @ S ''download_url'' @ w2 @ S ''='' @ w3 @ S ''"'' @ X
                    @ S ''";'' @ post\<close>
    and w1: "w1 \<noteq> []" "list_all white w1" and w2: "list_all white w2" and w3: "list_all white w3"
    and X: "X = S ''http://'' @ Y \<or> X = S ''https://'' @ Y" and Y: "Y \<noteq> []" "34 \<notin> set Y"
    and no_button: "positions True button_id html = []"
    and first: "list_all (\<lambda>p. length (pre @ S ''var'' @ w1) \<le> p)
                  (positions True (S ''download_url'') html)"
  shows "extract_link html = Some X"
proof -
  define R where \<open>R = w2 @ 61 # w3 @ 34 # X @ 34 # 59 # post\<close>
  have html': "html = (pre @ S ''var'' @ w1) @ S ''download_url'' @ R"
    by (simp add: html R_def S_def)
  have X34: "34 \<notin> set X" and X0: "X \<noteq> []"
    using X Y by (auto simp: S_def)
  have sound: "snd res = Some X"
    if m: "rxk True jsDownloadLinkRegex2 Some (drop j html, None) = Some res" and j: "j \<le> length pre"
    for j res
  proof -
    from regex2_D [OF m] obtain x0 y1 x2 y2 y3 g rest
      where d: "drop j html = x0 @ y1 @ x2 @ y2 @ 61 # y3 @ 34 # g @ 34 # 59 # rest"
        and x0: "lit_eq True (S ''var'') x0" and y1: "list_all white y1"
        and x2: "lit_eq True (S ''download_url'') x2" and y2: "list_all white y2"
        and y3: "list_all white y3" and g: "34 \<notin> set g" and res: "res = (rest, Some g)"
      by blast
    define B where "B = drop j pre @ S ''var'' @ w1"
    have dj: "drop j html = B @ S ''download_url'' @ R"
      using j by (simp add: html' B_def)
    have jl: "j \<le> length html"
      using j by (simp add: html')
    note Hj = regroup2 [OF d]
    from occurs_cut [OF Hj x2] first
    have "length (pre @ S ''var'' @ w1) \<le> length (take j html @ x0 @ y1)"
      by (simp add: list_all_iff)
    with j jl have "length B \<le> length (x0 @ y1)"
      by (simp add: B_def)
    moreover from d dj have "(x0 @ y1) @ (x2 @ y2 @ 61 # y3 @ 34 # g @ 34 # 59 # rest)
        = B @ (S ''download_url'' @ R)"
      by simp
    ultimately obtain t where t: "x0 @ y1 = B @ t"
      and t': "t @ x2 @ y2 @ 61 # y3 @ 34 # g @ 34 # 59 # rest = S ''download_url'' @ R"
      using cut_longer by blast
    have "t = []"
    proof (rule ccontr)
      assume "t \<noteq> []"
      then obtain c t0 where c: "t = c # t0"
        by (cases t) auto
      with t' have "c = 100"
        by (simp add: S_def)
      have "length x0 \<le> length B"
        using lit_eq_length [OF x0] by (simp add: B_def S_def)
      with t [symmetric] obtain e where "B = x0 @ e" "e @ t = y1"
        using cut_longer by blast
      with c \<open>c = 100\<close> have "100 \<in> set y1"
        by auto
      with white_not [OF y1] show False
        by simp
    qed
    with t' have "x2 @ (y2 @ 61 # y3 @ 34 # g @ 34 # 59 # rest) = S ''download_url'' @ R"
      by simp
    from cut_literal [OF this x2]
    have "y2 @ 61 # (y3 @ 34 # g @ 34 # 59 # rest) = w2 @ 61 # (w3 @ 34 # X @ 34 # 59 # post)"
      by (simp add: R_def)
    from same_run [OF this] white_not [OF y2] white_not [OF w2]
    have "y3 @ 34 # (g @ 34 # 59 # rest) = w3 @ 34 # (X @ 34 # 59 # post)"
      by simp
    from same_run [OF this] white_not [OF y3] white_not [OF w3]
    have "g @ 34 # (59 # rest) = X @ 34 # (59 # post)"
      by simp
    from same_run [OF this g X34] res show ?thesis
      by simp
  qed
  have "drop (length pre) html = S ''var'' @ w1 @ S ''download_url'' @ w2 @ S ''='' @ w3 @ S ''\"'' @ X
      @ S ''\";'' @ post"
    by (simp add: html)
  with regex2_I [OF w1 w2 w3 X Y]
  have "rxk True jsDownloadLinkRegex2 Some (drop (length pre) html, None) \<noteq> None"
    by simp
  then have "group1 True jsDownloadLinkRegex2 html = Some X"
  proof (rule group1_first)
    show "length pre \<le> length html"
      by (simp add: html)
    show "X \<noteq> []"
      by fact
    show "snd res = Some X"
      if "i \<le> length pre" and "rxk True jsDownloadLinkRegex2 Some (drop i html, None) = Some res"
      for i res
      using that(2,1) by (rule sound)
  qed
  with regex1_needs_button [OF no_button] show ?thesis
    by (simp add: extract_link_def)
qed

theorem assignment_extracted_witness:
  "extract_link html_var = Some url_video"
proof (rule assignment_extracted [where pre = "S ''<script>''" and ?w1.0 = "S '' ''" and ?w2.0 = "S '' ''"
      and ?w3.0 = "S '' ''" and Y = "S ''download123.mediafire.com/xyz/video.mp4''"
      and post = "S ''</script>''"])
qed (simp_all add: html_var_def url_video_def button_id_def S_def same_def canon_def white_def)

text \<open>
  C6, as stated, fails: a name taken from the upstream \<^verbatim>\<open>Content-Disposition\<close> gets no
  extension. For \<^verbatim>\<open>Content-Disposition: attachment; filename="report"\<close> and
  \<^verbatim>\<open>Content-Type: application/pdf\<close> the name has no dot, the type maps to \<^verbatim>\<open>pdf\<close>, which
  does not occur in the name, and still the computed name, and the name the handler sends,
  is \<^verbatim>\<open>report\<close>.
\<close>

theorem extension_counterexample:
  \<open>46 \<notin> set (S ''report'')
   \<and> map_of extMap (S ''application/pdf'') = Some (S ''pdf'')
   \<and> \<not> js_includes (S ''report'') (S ''pdf'')
   \<and> compute_filename (site (page_of html_anchor) file_video) link_video
        (up_headers (file_named (S ''attachment; filename="report"'') (S ''application/pdf'')))
        (base_headers (file_named (S ''attachment; filename="report"'') (S ''application/pdf'')))
      = Inr (S ''report'')
   \<and> headers_get (S ''Content-Disposition'')
        (r_headers (fst (fetch
           (site (page_of html_anchor)
              (file_named (S ''attachment; filename="report"'') (S ''application/pdf'')))
           (request_for ''GET'' (Some link_video)))))
      = Some (S ''attachment; filename="report"'')\<close>
proof -
  let ?f = \<open>file_named (S ''attachment; filename="report"'') (S ''application/pdf'')\<close>
  have name: "compute_filename P link_video (up_headers ?f) (base_headers ?f) = Inr (S ''report'')" for P
    by (simp add: compute_filename_def disposition_named S_facts)
  from fetch_site_named [OF name ok_examples(3) link_video_valid]
  have \<open>headers_get (S ''Content-Disposition'')
        (r_headers (fst (fetch (site (page_of html_anchor) ?f) (request_for ''GET'' (Some link_video)))))
      = Some (S ''attachment; filename="report"'')\<close>
    by (simp add: S_def)
  then show ?thesis
    using name S_facts mime_pdf(2) by simp
qed

text \<open>
  C6, amended. The extension step applies to the names of steps (b) and (c) and to the
  default name, that is, when the \<^verbatim>\<open>Content-Disposition\<close> step leaves the name
  \<^verbatim>\<open>downloaded_file\<close>: if the name taken from the link has no dot and the \<^verbatim>\<open>Content-Type\<close> of
  the response maps to an entry of the extension table, a dot and the extension are
  appended unless the extension already occurs in the name. A name taken from the upstream
  \<^verbatim>\<open>Content-Disposition\<close> (other than \<^verbatim>\<open>downloaded_file\<close>) is used unchanged.
\<close>

theorem extension_step:
  "(disposition_filename fh = Inr downloaded_file \<and> 46 \<notin> set (link_filename P link)
      \<and> headers_get (S ''Content-Type'') hs = Some ct
      \<and> split 59 ct = mime # rest \<and> map_of extMap mime = Some ext \<longrightarrow>
    compute_filename P link fh hs =
      Inr (if js_includes (link_filename P link) ext then link_filename P link
           else link_filename P link @ [46] @ ext))
   \<and> (disposition_filename fh = Inr name \<and> name \<noteq> downloaded_file \<longrightarrow>
    compute_filename P link fh hs = Inr name)"
  by (auto simp: compute_filename_def add_extension_mapped)

theorem extension_step_witness:
  \<open>compute_filename (site (page_of html_anchor) file_video) link_my_file
      (up_headers file_video) (base_headers file_video) = Inr (S ''My File'' @ [46] @ S ''mp4'')
   \<and> compute_filename (site (page_of html_anchor) file_video) link_my_file
      (up_headers (file_named (S ''attachment; filename="report"'') (S ''application/pdf'')))
      (base_headers (file_named (S ''attachment; filename="report"'') (S ''application/pdf'')))
     = Inr (S ''report'')\<close>
proof -
  let ?P = "site (page_of html_anchor) file_video"
  let ?f = \<open>file_named (S ''attachment; filename="report"'') (S ''application/pdf'')\<close>
  have name: "link_filename ?P link_my_file = S ''My File''"
    by (rule link_filename_my_file) (rule pathname_my_file)
  have a: "disposition_filename (up_headers file_video) = Inr downloaded_file
      \<and> 46 \<notin> set (link_filename ?P link_my_file)
      \<and> headers_get (S ''Content-Type'') (base_headers file_video) = Some (S ''video/mp4'')
      \<and> split 59 (S ''video/mp4'') = S ''video/mp4'' # [] \<and> map_of extMap (S ''video/mp4'') = Some (S ''mp4'')"
    by (simp add: disposition_filename_def file_video_headers name mime_mp4 base_type_video S_facts)
  have b: "disposition_filename (up_headers ?f) = Inr (S ''report'') \<and> S ''report'' \<noteq> downloaded_file"
    by (simp add: disposition_named S_facts)
  show ?thesis
    using extension_step [where fh = "up_headers file_video" and P = ?P and link = link_my_file
        and hs = "base_headers file_video" and ct = "S ''video/mp4''" and mime = "S ''video/mp4''"
        and rest = "[]" and ext = "S ''mp4''", THEN conjunct1, rule_format, OF a]
      extension_step [where fh = "up_headers ?f" and P = ?P and link = link_my_file
        and hs = "base_headers ?f" and name = "S ''report''", THEN conjunct2, rule_format, OF b]
    by (simp add: name S_facts)
qed

text \<open>
  C7. Whenever the handler answers with the relayed upstream body, the headers
  \<^verbatim>\<open>set-cookie\<close>, \<^verbatim>\<open>etag\<close>, \<^verbatim>\<open>vary\<close>, \<^verbatim>\<open>accept-ranges\<close>, \<^verbatim>\<open>content-encoding\<close>, \<^verbatim>\<open>cf-ray\<close> and
  \<^verbatim>\<open>alt-svc\<close> are absent from the response, whatever the upstream response carries.
\<close>

theorem scrubbed_relayed_response:
  "fetch P request = (r, calls) \<Longrightarrow> r_body r = Stream bytes \<Longrightarrow> scrubbed (r_headers r)"
  by (auto simp: fetch_def createErrorResponse_def stream_pipeline split: option.splits if_splits)

theorem scrubbed_relayed_response_witness:
  "headers_has (S ''set-cookie'') (up_headers file_video)
   \<and> headers_has (S ''etag'') (up_headers file_video)
   \<and> headers_has (S ''vary'') (up_headers file_video)
   \<and> headers_has (S ''accept-ranges'') (up_headers file_video)
   \<and> headers_has (S ''content-encoding'') (up_headers file_video)
   \<and> headers_has (S ''cf-ray'') (up_headers file_video)
   \<and> headers_has (S ''alt-svc'') (up_headers file_video)
   \<and> r_body (fst (fetch (site (page_of html_anchor) file_video) (request_for ''GET'' (Some link_video))))
        = Stream [0, 1, 2]
   \<and> scrubbed (r_headers (fst (fetch (site (page_of html_anchor) file_video)
        (request_for ''GET'' (Some link_video)))))"
proof -
  let ?out = "fetch (site (page_of html_anchor) file_video) (request_for ''GET'' (Some link_video))"
  obtain r where r: "relay (site (page_of html_anchor) file_video) link_video file_video = Inr r"
    and b: "r_body r = Stream [0, 1, 2]"
    using relay_video by blast
  have "?out = (r, [page_call link_video, file_call (request_for ''GET'' (Some link_video)) url_video])"
    using fetch_site [of "''GET''" file_video link_video, OF _ ok_examples(2) link_video_valid]
    by (simp add: S_def r)
  then have out: "?out = (fst ?out, snd ?out)" and body: "r_body (fst ?out) = Stream [0, 1, 2]"
    by (simp_all add: b)
  have "scrubbed (r_headers (fst ?out))"
    by (rule scrubbed_relayed_response [OF out body])
  moreover have "headers_has (S ''set-cookie'') (up_headers file_video)"
    "headers_has (S ''etag'') (up_headers file_video)"
    "headers_has (S ''vary'') (up_headers file_video)"
    "headers_has (S ''accept-ranges'') (up_headers file_video)"
    "headers_has (S ''content-encoding'') (up_headers file_video)"
    "headers_has (S ''cf-ray'') (up_headers file_video)"
    "headers_has (S ''alt-svc'') (up_headers file_video)"
    by (simp_all add: file_video_def hdr)
  ultimately show ?thesis
    using body by simp
qed

text \<open>
  C8. When the landing page was fetched with a success status and none of the four
  patterns matches its text, the handler answers with status 500 and the JSON error whose
  message reports that the direct link was not found, and the only call of \<^verbatim>\<open>fetch\<close>
  made is the one for the landing page: the direct URL is never fetched.
\<close>

theorem extraction_failure:
  assumes "req_method request \<noteq> S ''OPTIONS''" and "require request = Some link"
    and "startsWith link (S ''http://www.mediafire.com/'') \<or> startsWith link (S ''https://www.mediafire.com/'')"
    and "net_fetch P [] (page_call link) = Inr page" and "ok page" and "up_text page = Inr html"
    and "group1 True downloadLinkRegex1 html = None"
    and "group1 True jsDownloadLinkRegex2 html = None"
    and "group1 True dlLinkRegex3 html = None"
    and "group1 True directLinkInScriptRegex html = None"
  shows "fetch P request =
           (\<lparr>r_status = 500,
             r_headers = cors (headers_set (S ''Content-Type'') (S ''application/json'') Map.empty),
             r_body = Json msg_extraction link\<rparr>, [page_call link])"
proof -
  have "extract_link html = None"
    using assms(7-10) by (simp add: extract_link_def)
  moreover have "link \<noteq> []"
    using assms(3) by (auto simp: startsWith_def S_def)
  ultimately show ?thesis
    using assms(1-6) by (simp add: fetch_valid pipeline_def Let_def createErrorResponse_def)
qed

theorem extraction_failure_witness:
  "fetch (site (page_of html_plain) file_video) (request_for ''GET'' (Some link_video)) =
     (\<lparr>r_status = 500,
       r_headers = cors (headers_set (S ''Content-Type'') (S ''application/json'') Map.empty),
       r_body = Json msg_extraction link_video\<rparr>, [page_call link_video])"
proof -
  have none: "group1 True downloadLinkRegex1 html_plain = None"
    "group1 True jsDownloadLinkRegex2 html_plain = None"
    "group1 True dlLinkRegex3 html_plain = None"
    "group1 True directLinkInScriptRegex html_plain = None"
    by (simp_all add: html_plain_def group1_def downloadLinkRegex1_def jsDownloadLinkRegex2_def
        dlLinkRegex3_def directLinkInScriptRegex_def cat_def S_def same_def canon_def)
  show ?thesis
    by (rule extraction_failure [where page = "page_of html_plain" and html = html_plain])
       (simp_all add: none request_for_def site_def ok_def page_of_def link_video_def startsWith_def S_def)
qed

text \<open>
  C9, as stated, fails for the preflight: a request with the method OPTIONS is answered
  before the \<^verbatim>\<open>require\<close> value is read, so an OPTIONS request without that value gets status
  204 and no body, not 400.
\<close>

theorem link_validation_counterexample:
  "require (request_for ''OPTIONS'' None) = None
   \<and> fetch (site (page_of html_anchor) file_video) (request_for ''OPTIONS'' None) =
       (\<lparr>r_status = 204, r_headers = cors Map.empty, r_body = NoBody\<rparr>, [])"
  by (simp add: fetch_def request_for_def)

text \<open>
  C9, amended. Link validation, for every request whose method is not OPTIONS: when the
  \<^verbatim>\<open>require\<close> value is absent or empty, the response has status 400, a non-empty \<^verbatim>\<open>error\<close>
  and \<^verbatim>\<open>link_provided\<close> equal to \<^verbatim>\<open>N/A\<close>; when it is non-empty and does not start with
  \<^verbatim>\<open>http://www.mediafire.com/\<close> or \<^verbatim>\<open>https://www.mediafire.com/\<close>, the response has status 400
  and \<^verbatim>\<open>link_provided\<close> is the value itself; in both cases no call of \<^verbatim>\<open>fetch\<close> is made.
\<close>

theorem link_validation:
  assumes "req_method request \<noteq> S ''OPTIONS''"
  shows "(require request = None \<or> require request = Some [] \<longrightarrow>
            (\<exists>msg. msg \<noteq> [] \<and> fetch P request =
               (\<lparr>r_status = 400,
                 r_headers = cors (headers_set (S ''Content-Type'') (S ''application/json'') Map.empty),
                 r_body = Json msg (S ''N/A'')\<rparr>, [])))
       \<and> (\<forall>link. require request = Some link \<and> link \<noteq> []
              \<and> \<not> startsWith link (S ''http://www.mediafire.com/'')
              \<and> \<not> startsWith link (S ''https://www.mediafire.com/'') \<longrightarrow>
            (\<exists>msg. fetch P request =
               (\<lparr>r_status = 400,
                 r_headers = cors (headers_set (S ''Content-Type'') (S ''application/json'') Map.empty),
                 r_body = Json msg link\<rparr>, [])))"
proof -
  have "msg_missing \<noteq> []"
    by (simp add: msg_missing_def)
  then show ?thesis
    using assms by (auto simp: fetch_def createErrorResponse_def)
qed

theorem link_validation_witness:
  "fetch (site (page_of html_anchor) file_video) (request_for ''GET'' None) =
     (\<lparr>r_status = 400,
       r_headers = cors (headers_set (S ''Content-Type'') (S ''application/json'') Map.empty),
       r_body = Json msg_missing (S ''N/A'')\<rparr>, [])
   \<and> fetch (site (page_of html_anchor) file_video) (request_for ''GET'' (Some [])) =
     (\<lparr>r_status = 400,
       r_headers = cors (headers_set (S ''Content-Type'') (S ''application/json'') Map.empty),
       r_body = Json msg_missing (S ''N/A'')\<rparr>, [])
   \<and> fetch (site (page_of html_anchor) file_video)
        (request_for ''GET'' (Some (S ''https://mediafire.com/file/abc123/video.mp4/file''))) =
     (\<lparr>r_status = 400,
       r_headers = cors (headers_set (S ''Content-Type'') (S ''application/json'') Map.empty),
       r_body = Json msg_invalid (S ''https://mediafire.com/file/abc123/video.mp4/file'')\<rparr>, [])"
proof -
  have m: "req_method (request_for ''GET'' l) \<noteq> S ''OPTIONS''" for l
    by (simp add: request_for_def S_def)
  have bad: "S ''https://mediafire.com/file/abc123/video.mp4/file'' \<noteq> []
      \<and> \<not> startsWith (S ''https://mediafire.com/file/abc123/video.mp4/file'') (S ''http://www.mediafire.com/'')
      \<and> \<not> startsWith (S ''https://mediafire.com/file/abc123/video.mp4/file'') (S ''https://www.mediafire.com/'')"
    by (simp add: startsWith_def S_def)
  show ?thesis
    using link_validation [OF m [of None], of "site (page_of html_anchor) file_video"]
      link_validation [OF m [of "Some []"], of "site (page_of html_anchor) file_video"]
      link_validation [OF m [of "Some (S ''https://mediafire.com/file/abc123/video.mp4/file'')"],
        of "site (page_of html_anchor) file_video"] bad
    by (auto simp: request_for_def fetch_def createErrorResponse_def)
qed

text \<open>
  C10. The method is inspected only to detect OPTIONS: two requests whose methods are both
  different from OPTIONS and that agree on the \<^verbatim>\<open>require\<close> value and the headers get the
  same response and cause the same calls of \<^verbatim>\<open>fetch\<close>, on every platform. No method is
  rejected.
\<close>

theorem method_only_options:
  assumes "req_method r1 \<noteq> S ''OPTIONS''" and "req_method r2 \<noteq> S ''OPTIONS''"
    and "require r1 = require r2" and "req_headers r1 = req_headers r2"
  shows "fetch P r1 = fetch P r2"
  using assms pipeline_method [of r1 r2 P]
  by (simp add: fetch_def split: option.splits)

theorem method_only_options_witness:
  "fetch (site (page_of html_anchor) file_video) (request_for ''GET'' (Some link_video))
   = fetch (site (page_of html_anchor) file_video) (request_for ''DELETE'' (Some link_video))
   \<and> fetch (site (page_of html_anchor) file_video) (request_for ''GET'' (Some link_video))
   = fetch (site (page_of html_anchor) file_video) (request_for ''POST'' (Some link_video))
   \<and> fetch (site (page_of html_anchor) file_video) (request_for ''GET'' (Some link_video))
   = fetch (site (page_of html_anchor) file_video) (request_for ''HEAD'' (Some link_video))
   \<and> r_body (fst (fetch (site (page_of html_anchor) file_video)
        (request_for ''DELETE'' (Some link_video)))) = Stream [0, 1, 2]"
proof -
  have m: "req_method (request_for ''GET'' l) \<noteq> S ''OPTIONS''"
    "req_method (request_for ''DELETE'' l) \<noteq> S ''OPTIONS''"
    "req_method (request_for ''POST'' l) \<noteq> S ''OPTIONS''"
    "req_method (request_for ''HEAD'' l) \<noteq> S ''OPTIONS''" for l
    by (simp_all add: request_for_def S_def)
  have same: "require (request_for a l) = require (request_for b l)"
    "req_headers (request_for a l) = req_headers (request_for b l)" for a b l
    by (simp_all add: request_for_def)
  obtain r where "relay (site (page_of html_anchor) file_video) link_video file_video = Inr r"
    and "r_body r = Stream [0, 1, 2]"
    using relay_video by blast
  then have "r_body (fst (fetch (site (page_of html_anchor) file_video)
      (request_for ''DELETE'' (Some link_video)))) = Stream [0, 1, 2]"
    using fetch_site [of "''DELETE''" file_video link_video, OF _ ok_examples(2) link_video_valid]
    by (simp add: S_def)
  then show ?thesis
    using method_only_options [OF m(1) m(2) same] method_only_options [OF m(1) m(3) same]
      method_only_options [OF m(1) m(4) same]
    by simp
qed

end
